theory Spec2Isabelle
  imports Main "HOL-Library.Word" "HOL-Library.Sublist"
begin

section \<open>The PL2303 user-space driver (index.js)\<close>

text \<open>
  A shallow embedding of \<^verbatim>\<open>src/index.js\<close>. JavaScript numbers that the driver
  handles are integers (baud rates, port indices) and are modelled as \<^typ>\<open>int\<close>; the
  fields of a USB setup packet are \<^typ>\<open>nat\<close>; a Node \<^verbatim>\<open>Buffer\<close> is a list of
  bytes. Exceptions, failed assertions and rejected promises are values of the type
  \<open>error\<close>.
\<close>

subsection \<open>Values, errors and buffers\<close>

type_synonym byte = "8 word"

datatype error =
    AssertionError
  | TypeError
  | RangeError
  | TransportError nat \<comment> \<open>the error object the USB stack hands to a transfer callback\<close>

text \<open>The supported-rate table, lines 20--25 of the source, entry for entry.\<close>

definition SupportedBaudrates :: "int list" where
  "SupportedBaudrates =
    [75, 150, 300, 600, 1200, 1800, 2400, 3600,
     4800, 7200, 9600, 14400, 19200, 28800, 38400,
     57600, 115200, 230400, 460800, 614400,
     921600, 1228800, 2457600, 3000000, 6000000]"

subsection \<open>Array.prototype.sort with a comparison function\<close>

text \<open>
  \<^verbatim>\<open>xs.slice().sort(cmp)\<close> returns a sorted copy. ECMAScript requires the sort to be
  stable: elements that compare equal (\<open>cmp a b = 0\<close>) keep their order. The model is
  the stable insertion sort driven by the comparison function: \<open>cmp a b < 0\<close> puts
  \<open>a\<close> first, \<open>cmp a b > 0\<close> puts \<open>b\<close> first, and on \<open>0\<close> the element that
  stood earlier in the array stays earlier.
\<close>

fun sort_insert :: "('a \<Rightarrow> 'a \<Rightarrow> int) \<Rightarrow> 'a \<Rightarrow> 'a list \<Rightarrow> 'a list" where
  "sort_insert cmp x [] = [x]"
| "sort_insert cmp x (y # ys) =
     (if cmp x y \<le> 0 then x # y # ys else y # sort_insert cmp x ys)"

fun array_sort :: "('a \<Rightarrow> 'a \<Rightarrow> int) \<Rightarrow> 'a list \<Rightarrow> 'a list" where
  "array_sort cmp [] = []"
| "array_sort cmp (x # xs) = sort_insert cmp x (array_sort cmp xs)"

text \<open>\<^verbatim>\<open>list[0]\<close>: the first element, or \<^verbatim>\<open>undefined\<close> (here \<open>None\<close>) on an empty array.\<close>

definition first_element :: "'a list \<Rightarrow> 'a option" where
  "first_element xs = (case xs of [] \<Rightarrow> None | x # _ \<Rightarrow> Some x)"

subsection \<open>Baud-rate selection (setBaudrate, lines 58--60)\<close>

text \<open>The comparison function \<^verbatim>\<open>(a, b) => Math.abs(a - baud) - Math.abs(b - baud)\<close>.\<close>

definition baud_distance_cmp :: "int \<Rightarrow> int \<Rightarrow> int \<Rightarrow> int" where
  "baud_distance_cmp baud a b = \<bar>a - baud\<bar> - \<bar>b - baud\<bar>"

text \<open>
  The local \<^verbatim>\<open>newBaud\<close> of \<^verbatim>\<open>setBaudrate\<close>: the head of the table sorted by
  distance from the requested rate.
\<close>

definition newBaud :: "int \<Rightarrow> int option" where
  "newBaud baud =
     first_element (array_sort (baud_distance_cmp baud) SupportedBaudrates)"

text \<open>
  Lines 57--60: the assertion \<^verbatim>\<open>assert(baud <= 115200)\<close> runs first and throws
  before anything else happens; only then is the rate selected.
\<close>

definition setBaudrate_rate :: "int \<Rightarrow> error + int option" where
  "setBaudrate_rate baud =
     (if baud \<le> 115200 then Inr (newBaud baud) else Inl AssertionError)"

subsection \<open>Buffer operations\<close>

text \<open>The four bytes of a 32-bit value, least significant first.\<close>

definition int32_le_bytes :: "int \<Rightarrow> byte list" where
  "int32_le_bytes v =
     (let w = (word_of_int v :: 32 word)
      in [ucast w, ucast (drop_bit 8 w), ucast (drop_bit 16 w), ucast (drop_bit 24 w)])"

text \<open>
  \<^verbatim>\<open>buf.writeInt32LE(value, offset)\<close>: Node throws a \<^verbatim>\<open>RangeError\<close> when the value is
  not a signed 32-bit integer or the four bytes do not fit into the buffer at the
  offset. An \<^verbatim>\<open>undefined\<close> value (here \<open>None\<close>) is coerced to \<^verbatim>\<open>NaN\<close>, which passes
  the comparison with the limits and is stored as four zero bytes.
\<close>

definition writeInt32LE :: "int option \<Rightarrow> nat \<Rightarrow> byte list \<Rightarrow> error + byte list" where
  "writeInt32LE value offset buf =
     (case value of
        None \<Rightarrow>
          if length buf < offset + 4 then Inl RangeError
          else Inr (take offset buf @ [0, 0, 0, 0] @ drop (offset + 4) buf)
      | Some v \<Rightarrow>
          if v < - (2 ^ 31) \<or> 2 ^ 31 - 1 < v then Inl RangeError
          else if length buf < offset + 4 then Inl RangeError
          else Inr (take offset buf @ int32_le_bytes v @ drop (offset + 4) buf))"

text \<open>
  \<^verbatim>\<open>buf[i] = v\<close> on a Buffer: the byte is stored when \<open>i\<close> is inside the buffer; an
  index outside it is ignored (a typed array never grows).
\<close>

definition set_index :: "nat \<Rightarrow> byte \<Rightarrow> byte list \<Rightarrow> byte list" where
  "set_index i v buf = (if i < length buf then buf[i := v] else buf)"

text \<open>
  The body of the callback of lines 62--68 up to the transfer: the template read from
  the device is mutated in place.
\<close>

definition setBaudrate_parameters :: "int option \<Rightarrow> byte list \<Rightarrow> error + byte list" where
  "setBaudrate_parameters rate data =
     (case writeInt32LE rate 0 data of
        Inl e \<Rightarrow> Inl e
      | Inr parameters \<Rightarrow>
          Inr (set_index 6 8 (set_index 5 0 (set_index 4 0 parameters))))"

subsection \<open>The USB transport\<close>

text \<open>
  The arguments of \<^verbatim>\<open>device.controlTransfer\<close>: the four fields of the setup packet and
  \<^verbatim>\<open>dataOrLength\<close>, which is a number of bytes to read (IN) or a buffer to send (OUT).
\<close>

datatype data_or_length = Length nat | Data "byte list"

record control_request =
  bmRequestType :: nat
  bRequest :: nat
  wValue :: nat
  wIndex :: nat
  dataOrLength :: data_or_length

record endpoint =
  transferType :: nat
  direction :: string
  address :: nat

record usb_interface =
  endpoints :: "endpoint list"

text \<open>
  A device as the driver sees it: its descriptor, its interfaces, and how it answers
  control transfers. The answer to a transfer may depend on everything sent before
  (\<open>respond dev history request\<close>); it is either the error the callback receives
  or the bytes returned.
\<close>

record usb_device =
  deviceAddress :: nat
  idVendor :: nat
  idProduct :: nat
  bDeviceClass :: nat
  bMaxPacketSize0 :: nat
  interfaces :: "usb_interface list"
  respond :: "control_request list \<Rightarrow> control_request \<Rightarrow> nat + byte list"

text \<open>The constants of the \<^verbatim>\<open>usb\<close> package (libusb's transfer types).\<close>

definition LIBUSB_TRANSFER_TYPE_BULK :: nat where
  "LIBUSB_TRANSFER_TYPE_BULK = 2"

definition LIBUSB_TRANSFER_TYPE_INTERRUPT :: nat where
  "LIBUSB_TRANSFER_TYPE_INTERRUPT = 3"

subsection \<open>Promises over the state of a run\<close>

datatype event = ReadyEvent | ErrorEvent error

text \<open>
  What a run of the asynchronous chain leaves behind: the control transfers issued, in
  order; the \<^verbatim>\<open>ready\<close> and \<^verbatim>\<open>error\<close> events the chain emitted, in order; and which
  endpoints are being polled.
\<close>

record run_state =
  issued :: "control_request list"
  emitted :: "event list"
  intEp_polling :: bool
  inEp_polling :: bool

text \<open>
  A promise is run from a state and is fulfilled with a value (\<open>Inr\<close>) or rejected with
  an error (\<open>Inl\<close>). \<^verbatim>\<open>p.then(f)\<close> calls \<open>f\<close> only when \<open>p\<close> is fulfilled, and
  only after it; a rejection passes through. \<^verbatim>\<open>p.catch(h)\<close> calls \<open>h\<close> only on a
  rejection. An exception thrown inside a callback rejects the promise.
\<close>

type_synonym 'a promise = "run_state \<Rightarrow> (error + 'a) \<times> run_state"

definition resolve :: "'a \<Rightarrow> 'a promise" where
  "resolve a s = (Inr a, s)"

definition throw :: "error \<Rightarrow> 'a promise" where
  "throw e s = (Inl e, s)"

definition then_p :: "'a promise \<Rightarrow> ('a \<Rightarrow> 'b promise) \<Rightarrow> 'b promise" where
  "then_p p f s =
     (case p s of
        (Inl e, s') \<Rightarrow> (Inl e, s')
      | (Inr a, s') \<Rightarrow> f a s')"

definition catch_p :: "'a promise \<Rightarrow> (error \<Rightarrow> 'a promise) \<Rightarrow> 'a promise" where
  "catch_p p h s =
     (case p s of
        (Inl e, s') \<Rightarrow> h e s'
      | (Inr a, s') \<Rightarrow> (Inr a, s'))"

definition emit :: "event \<Rightarrow> unit promise" where
  "emit ev s = (Inr (), s\<lparr>emitted := emitted s @ [ev]\<rparr>)"

definition inEp_startPoll :: "unit promise" where
  "inEp_startPoll s = (Inr (), s\<lparr>inEp_polling := True\<rparr>)"

subsection \<open>Control transfers and the vendor register protocol (lines 34--54)\<close>

text \<open>
  \<^verbatim>\<open>controlTransfer\<close> hands the request to the device and returns a promise: rejected
  with the callback's error, fulfilled with its data. The request is issued in both
  cases. The callback always comes: a transfer that the device leaves unanswered ends
  with the stack's timeout error (the constructor sets the timeout to 100 ms).
\<close>

definition controlTransfer ::
  "usb_device \<Rightarrow> nat \<Rightarrow> nat \<Rightarrow> nat \<Rightarrow> nat \<Rightarrow> data_or_length \<Rightarrow> byte list promise" where
  "controlTransfer device requestType request val idx dol s =
     (let req = \<lparr>bmRequestType = requestType, bRequest = request, wValue = val,
                  wIndex = idx, dataOrLength = dol\<rparr>;
          s' = s\<lparr>issued := issued s @ [req]\<rparr>
      in case respond device (issued s) req of
           Inl err \<Rightarrow> (Inl (TransportError err), s')
         | Inr data \<Rightarrow> (Inr data, s'))"

definition vendorRead :: "usb_device \<Rightarrow> nat \<Rightarrow> nat \<Rightarrow> byte option promise" where
  "vendorRead device val idx =
     then_p (controlTransfer device 0xc0 0x01 val idx (Length 1))
       (\<lambda>buffer. resolve (first_element buffer))"

text \<open>\<^verbatim>\<open>Buffer.alloc(0)\<close> is the empty buffer.\<close>

definition vendorWrite :: "usb_device \<Rightarrow> nat \<Rightarrow> nat \<Rightarrow> byte list promise" where
  "vendorWrite device val idx = controlTransfer device 0x40 0x01 val idx (Data [])"

subsection \<open>setBaudrate (lines 56--73)\<close>

definition setBaudrate :: "usb_device \<Rightarrow> int \<Rightarrow> byte list promise" where
  "setBaudrate device baud =
     (case setBaudrate_rate baud of
        Inl e \<Rightarrow> throw e
      | Inr rate \<Rightarrow>
          then_p (then_p (then_p (then_p
            (controlTransfer device 0xa1 0x21 0 0 (Length 7))
            (\<lambda>data. case setBaudrate_parameters rate data of
                       Inl e \<Rightarrow> throw e
                     | Inr parameters \<Rightarrow>
                         controlTransfer device 0x21 0x20 0 0 (Data parameters)))
            (\<lambda>_. vendorWrite device 0x0 0x0))
            (\<lambda>_. vendorWrite device 8 0))
            (\<lambda>_. vendorWrite device 9 0))"

subsection \<open>The bring-up chain of the constructor (lines 112--126)\<close>

text \<open>Lines 112--123: the register operations, ending with \<^verbatim>\<open>setBaudrate\<close>.\<close>

definition bringUp_registers :: "usb_device \<Rightarrow> int \<Rightarrow> byte list promise" where
  "bringUp_registers device bitrate =
      then_p (then_p (then_p (then_p (then_p (then_p
      (then_p (then_p (then_p (then_p (then_p
        (vendorRead device 0x8484 0)
        (\<lambda>_. vendorWrite device 0x0404 0))
        (\<lambda>_. vendorRead device 0x8484 0))
        (\<lambda>_. vendorRead device 0x8383 0))
        (\<lambda>_. vendorRead device 0x8484 0))
        (\<lambda>_. vendorWrite device 0x0404 1))
        (\<lambda>_. vendorRead device 0x8484 0))
        (\<lambda>_. vendorRead device 0x8383 0))
        (\<lambda>_. vendorWrite device 0 1))
        (\<lambda>_. vendorWrite device 1 0))
        (\<lambda>_. vendorWrite device 2 0x44))
        (\<lambda>_. setBaudrate device bitrate)"

text \<open>
  Lines 124--126: once the registers are set, polling of the bulk-in endpoint starts and
  \<^verbatim>\<open>ready\<close> is emitted; a rejection anywhere in the chain reaches the \<^verbatim>\<open>catch\<close>, which
  emits \<^verbatim>\<open>error\<close>.
\<close>

definition bringUp :: "usb_device \<Rightarrow> int \<Rightarrow> unit promise" where
  "bringUp device bitrate =
     catch_p
       (then_p (then_p
         (bringUp_registers device bitrate)
         (\<lambda>_. inEp_startPoll))
         (\<lambda>_. emit ReadyEvent))
       (\<lambda>err. emit (ErrorEvent err))"

text \<open>
  The state in which the chain starts: nothing issued, nothing emitted, the interrupt
  endpoint already polling (line 99), the bulk-in endpoint not yet.
\<close>

definition initial_state :: run_state where
  "initial_state =
     \<lparr>issued = [], emitted = [], intEp_polling = True, inEp_polling = False\<rparr>"

definition bringUp_run :: "usb_device \<Rightarrow> int \<Rightarrow> run_state" where
  "bringUp_run device bitrate = snd (bringUp device bitrate initial_state)"

subsection \<open>The constructor's checks (lines 76--111)\<close>

record opts =
  port :: "int option"
  baudRate :: "int option"

text \<open>
  \<^verbatim>\<open>x || d\<close> on an optional number: \<^verbatim>\<open>undefined\<close> and \<open>0\<close> are falsy and give the
  default.
\<close>

definition js_or :: "int option \<Rightarrow> int \<Rightarrow> int" where
  "js_or x d = (case x of None \<Rightarrow> d | Some v \<Rightarrow> if v = 0 then d else v)"

definition findDevices :: "usb_device list \<Rightarrow> nat \<Rightarrow> nat \<Rightarrow> usb_device list" where
  "findDevices deviceList vid pid =
     filter (\<lambda>device. idVendor device = vid \<and> idProduct device = pid) deviceList"

definition assert :: "bool \<Rightarrow> error + unit" where
  "assert b = (if b then Inr () else Inl AssertionError)"

definition bind_r :: "error + 'a \<Rightarrow> ('a \<Rightarrow> error + 'b) \<Rightarrow> error + 'b" where
  "bind_r r f = (case r of Inl e \<Rightarrow> Inl e | Inr a \<Rightarrow> f a)"

definition findEp :: "usb_interface \<Rightarrow> nat \<Rightarrow> string \<Rightarrow> error + endpoint" where
  "findEp iface ty dir =
     (let eps = filter (\<lambda>e. transferType e = ty \<and> direction e = dir) (endpoints iface)
      in bind_r (assert (length eps = 1)) (\<lambda>_.
           case eps of [] \<Rightarrow> Inl TypeError | e # _ \<Rightarrow> Inr e))"

record session =
  device :: usb_device
  iface :: usb_interface
  outEp :: endpoint

text \<open>
  The constructor: every failed assertion and every exception aborts it, and no object
  is returned. \<^verbatim>\<open>devices[port]\<close> is \<^verbatim>\<open>undefined\<close> for a negative index, and reading
  its descriptor then throws a \<^verbatim>\<open>TypeError\<close>. The calls into the USB stack between the
  checks (\<^verbatim>\<open>open\<close>, \<^verbatim>\<open>claim\<close>, \<^verbatim>\<open>startPoll\<close>, the registration of listeners) are
  taken to return normally. On success the result is the session object together with
  the state the bring-up chain reaches when it has run.
\<close>

definition UsbSerial :: "usb_device list \<Rightarrow> opts \<Rightarrow> error + session \<times> run_state" where
  "UsbSerial deviceList options =
     (let p = js_or (port options) 0;
          bitrate = js_or (baudRate options) 9600;
          devices = findDevices deviceList 0x067b 0x2303
      in bind_r (assert (int (length devices) > p)) (\<lambda>_.
         bind_r (if p < 0 then Inl TypeError else Inr (devices ! nat p)) (\<lambda>dev.
         bind_r (assert (bDeviceClass dev \<noteq> 0x02)) (\<lambda>_.
         bind_r (assert (bMaxPacketSize0 dev = 0x40)) (\<lambda>_.
         bind_r (assert (length (interfaces dev) = 1)) (\<lambda>_.
         bind_r (case interfaces dev of [] \<Rightarrow> Inl TypeError | i # _ \<Rightarrow> Inr i) (\<lambda>ifc.
         bind_r (findEp ifc LIBUSB_TRANSFER_TYPE_INTERRUPT ''in'') (\<lambda>intEp.
         bind_r (findEp ifc LIBUSB_TRANSFER_TYPE_BULK ''in'') (\<lambda>inEp.
         bind_r (findEp ifc LIBUSB_TRANSFER_TYPE_BULK ''out'') (\<lambda>out.
           Inr (\<lparr>device = dev, iface = ifc, outEp = out\<rparr>,
                bringUp_run dev bitrate)))))))))))"

subsection \<open>send (lines 137--140)\<close>

text \<open>
  The argument of \<^verbatim>\<open>send\<close> is any JavaScript value; only a \<^verbatim>\<open>Buffer\<close> (or an instance
  of a subclass) passes \<^verbatim>\<open>data instanceof Buffer\<close>.
\<close>

datatype js_value =
    JBuffer "byte list"
  | JUint8Array "byte list"
  | JString string
  | JNumber int
  | JUndefined

definition instanceof_Buffer :: "js_value \<Rightarrow> bool" where
  "instanceof_Buffer v = (case v of JBuffer _ \<Rightarrow> True | _ \<Rightarrow> False)"

text \<open>
  The bulk-out side of the world: each call of \<^verbatim>\<open>outEp.transfer(data)\<close> submits one
  transfer, recorded with its endpoint and the value handed over. \<^verbatim>\<open>send\<close> passes no
  callback to the transfer and returns nothing.
\<close>

type_synonym bulk_log = "(endpoint \<times> js_value) list"

definition send :: "session \<Rightarrow> js_value \<Rightarrow> bulk_log \<Rightarrow> (error + unit) \<times> bulk_log" where
  "send this data log =
     (case assert (instanceof_Buffer data) of
        Inl e \<Rightarrow> (Inl e, log)
      | Inr _ \<Rightarrow> (Inr (), log @ [(outEp this, data)]))"

section \<open>What the specification expects\<close>

subsection \<open>The requests on the wire\<close>

text \<open>
  The requests that \<^verbatim>\<open>vendorRead(device, value, index)\<close> and
  \<^verbatim>\<open>vendorWrite(device, value, index)\<close> stand for, and the two requests of the
  line-configuration read-modify-write.
\<close>

definition vendorRead_request :: "nat \<Rightarrow> nat \<Rightarrow> control_request" where
  "vendorRead_request val idx =
     \<lparr>bmRequestType = 0xc0, bRequest = 0x01, wValue = val, wIndex = idx,
      dataOrLength = Length 1\<rparr>"

definition vendorWrite_request :: "nat \<Rightarrow> nat \<Rightarrow> control_request" where
  "vendorWrite_request val idx =
     \<lparr>bmRequestType = 0x40, bRequest = 0x01, wValue = val, wIndex = idx,
      dataOrLength = Data []\<rparr>"

definition getLine_request :: control_request where
  "getLine_request =
     \<lparr>bmRequestType = 0xa1, bRequest = 0x21, wValue = 0, wIndex = 0,
      dataOrLength = Length 7\<rparr>"

definition setLine_request :: "byte list \<Rightarrow> control_request" where
  "setLine_request payload =
     \<lparr>bmRequestType = 0x21, bRequest = 0x20, wValue = 0, wIndex = 0,
      dataOrLength = Data payload\<rparr>"

text \<open>
  Steps 1--15 of the bring-up sequence as the specification lists them; step 12 is the
  pair of line-configuration requests, and its payload is the only parameter.
\<close>

definition bringup_sequence :: "byte list \<Rightarrow> control_request list" where
  "bringup_sequence payload =
     [vendorRead_request 0x8484 0,
      vendorWrite_request 0x0404 0,
      vendorRead_request 0x8484 0,
      vendorRead_request 0x8383 0,
      vendorRead_request 0x8484 0,
      vendorWrite_request 0x0404 1,
      vendorRead_request 0x8484 0,
      vendorRead_request 0x8383 0,
      vendorWrite_request 0 1,
      vendorWrite_request 1 0,
      vendorWrite_request 2 0x44,
      getLine_request,
      setLine_request payload,
      vendorWrite_request 0 0,
      vendorWrite_request 8 0,
      vendorWrite_request 9 0]"

text \<open>The number that a sequence of bytes denotes when read least significant first.\<close>

fun le_value :: "byte list \<Rightarrow> nat" where
  "le_value [] = 0"
| "le_value (b # bs) = unat b + 256 * le_value bs"

text \<open>
  The specification's reading of \<^verbatim>\<open>vendorWrite(regIndex, value)\<close>: the transfer carries
  a data payload equal to the numeric value. An empty payload denotes 0 in any byte
  order.
\<close>

definition payload_carries :: "data_or_length \<Rightarrow> nat \<Rightarrow> bool" where
  "payload_carries dol v = (case dol of Data bytes \<Rightarrow> le_value bytes = v | Length _ \<Rightarrow> False)"

text \<open>Steps 12--15: what \<^verbatim>\<open>setBaudrate\<close> sends.\<close>

definition line_requests :: "byte list \<Rightarrow> control_request list" where
  "line_requests payload =
     [getLine_request,
      setLine_request payload,
      vendorWrite_request 0 0,
      vendorWrite_request 8 0,
      vendorWrite_request 9 0]"

section \<open>Vocabulary for runs\<close>

text \<open>
  A trace is answered when every request in it got data back from the device. A run
  that was rejected has stopped properly when a transport error is the answer to the last
  request issued, all earlier requests having been answered, and when any other error left
  an answered trace behind.
\<close>

definition answered :: "usb_device \<Rightarrow> control_request list \<Rightarrow> bool" where
  "answered dev tr \<longleftrightarrow> (\<forall>k<length tr. \<exists>d. respond dev (take k tr) (tr ! k) = Inr d)"

definition stopped :: "usb_device \<Rightarrow> error \<Rightarrow> control_request list \<Rightarrow> bool" where
  "stopped dev e tr \<longleftrightarrow>
     (case e of
        TransportError x \<Rightarrow> (\<exists>h q. tr = h @ [q] \<and> answered dev h \<and> respond dev h q = Inl x)
      | _ \<Rightarrow> answered dev tr)"

definition settled :: "usb_device \<Rightarrow> error + 'a \<Rightarrow> control_request list \<Rightarrow> bool" where
  "settled dev r tr \<longleftrightarrow> (case r of Inr _ \<Rightarrow> answered dev tr | Inl e \<Rightarrow> stopped dev e tr)"

text \<open>
  A promise is halting when, started after an answered trace, it is settled in this
  sense: nothing is issued after a failed transfer.
\<close>

definition halting :: "usb_device \<Rightarrow> 'a promise \<Rightarrow> bool" where
  "halting dev p \<longleftrightarrow>
     (\<forall>s. answered dev (issued s) \<longrightarrow> settled dev (fst (p s)) (issued (snd (p s))))"

text \<open>
  A promise is issuing a set of request sequences when every run of it appends to the
  trace a prefix of one of them, the whole of it when the promise is fulfilled, and
  leaves the events and the polling flags alone.
\<close>

definition seq :: "'a list set \<Rightarrow> 'a list set \<Rightarrow> 'a list set" where
  "seq R R' = {rs @ rs' | rs rs'. rs \<in> R \<and> rs' \<in> R'}"

definition issuing :: "control_request list set \<Rightarrow> 'a promise \<Rightarrow> bool" where
  "issuing R p \<longleftrightarrow>
     (\<forall>s. emitted (snd (p s)) = emitted s
        \<and> inEp_polling (snd (p s)) = inEp_polling s
        \<and> intEp_polling (snd (p s)) = intEp_polling s
        \<and> (\<exists>rs\<in>R. \<exists>k\<le>length rs. issued (snd (p s)) = issued s @ take k rs
              \<and> (isl (fst (p s)) \<or> k = length rs)))"

text \<open>
  A device that answers every control transfer, and a read of the line configuration
  with at least the four bytes that the rate is written into.
\<close>

definition answers_all :: "usb_device \<Rightarrow> bool" where
  "answers_all dev \<longleftrightarrow>
     (\<forall>h q. \<exists>d. respond dev h q = Inr d \<and> (q = getLine_request \<longrightarrow> 4 \<le> length d))"

definition fulfilled :: "'a promise \<Rightarrow> bool" where
  "fulfilled p \<longleftrightarrow> (\<forall>s. \<exists>a. fst (p s) = Inr a)"

text \<open>A promise that can be rejected by a failed transfer only.\<close>

definition transport_only :: "'a promise \<Rightarrow> bool" where
  "transport_only p \<longleftrightarrow> (\<forall>s e. fst (p s) = Inl e \<longrightarrow> (\<exists>x. e = TransportError x))"

section \<open>Concrete devices\<close>

text \<open>
  A PL2303 of the HX type as the USB stack presents it: one interface with an
  interrupt-in, a bulk-out and a bulk-in endpoint. It answers every control transfer,
  always with the same seven bytes (115200 baud, two stop bits, odd parity, seven data
  bits when read as a line configuration).
\<close>

definition hx_interface :: usb_interface where
  "hx_interface =
     \<lparr>endpoints =
        [\<lparr>transferType = 3, direction = ''in'', address = 0x81\<rparr>,
         \<lparr>transferType = 2, direction = ''out'', address = 0x02\<rparr>,
         \<lparr>transferType = 2, direction = ''in'', address = 0x83\<rparr>]\<rparr>"

definition hx_device :: "nat \<Rightarrow> usb_device" where
  "hx_device addr =
     \<lparr>deviceAddress = addr, idVendor = 0x067b, idProduct = 0x2303, bDeviceClass = 0,
      bMaxPacketSize0 = 0x40, interfaces = [hx_interface],
      respond = (\<lambda>history request. Inr [0x00, 0xc2, 0x01, 0x00, 2, 1, 7])\<rparr>"

text \<open>The same device, except that the transfer number \<open>n\<close> (from 0) fails.\<close>

definition failing_device :: "nat \<Rightarrow> nat \<Rightarrow> usb_device" where
  "failing_device n err =
     (hx_device 1)\<lparr>respond :=
        (\<lambda>history request.
           if length history = n then Inl err else Inr [0x00, 0xc2, 0x01, 0x00, 2, 1, 7])\<rparr>"

text \<open>
  The same device, except that it answers every transfer, the read of the line
  configuration too, with three bytes only.
\<close>

definition short_template_device :: usb_device where
  "short_template_device =
     (hx_device 1)\<lparr>respond := (\<lambda>history request. Inr [1, 2, 3])\<rparr>"

text \<open>A session object on that device, as the constructor builds it.\<close>

definition hx_session :: session where
  "hx_session =
     \<lparr>device = hx_device 1, iface = hx_interface,
      outEp = \<lparr>transferType = 2, direction = ''out'', address = 0x02\<rparr>\<rparr>"

text \<open>A device of another vendor, which the driver must pass over.\<close>

definition other_device :: usb_device where
  "other_device =
     \<lparr>deviceAddress = 9, idVendor = 0x0403, idProduct = 0x6001, bDeviceClass = 0,
      bMaxPacketSize0 = 8, interfaces = [],
      respond = (\<lambda>history request. Inl 4)\<rparr>"

text \<open>A system with two adapters and a device of another vendor between them.\<close>

definition two_adapters :: "usb_device list" where
  "two_adapters = [hx_device 1, other_device, hx_device 2]"

section \<open>The supported-rate table\<close>

lemma SupportedBaudrates_ascending: "sorted_wrt (<) SupportedBaudrates"
  by (simp add: SupportedBaudrates_def)

lemma SupportedBaudrates_range:
  "b \<in> set SupportedBaudrates \<Longrightarrow> 75 \<le> b \<and> b \<le> 6000000"
  by (auto simp: SupportedBaudrates_def)

text \<open>
  Claim C4, as stated: the table of supported baud rates is a fixed ascending table
  containing exactly 26 rates. The table of the source has 25 entries, so the count of
  the claim is refuted.
\<close>

theorem SupportedBaudrates_not_26: "length SupportedBaudrates \<noteq> 26"
  by (simp add: SupportedBaudrates_def)

text \<open>
  Claim C4, amended: the table of supported baud rates is a fixed, strictly ascending
  table containing exactly 25 rates.
\<close>

theorem SupportedBaudrates_ascending_25:
  "sorted_wrt (<) SupportedBaudrates \<and> length SupportedBaudrates = 25"
  by (simp add: SupportedBaudrates_def)

section \<open>Baud-rate selection\<close>

lemma first_element_sort_insert:
  "first_element (sort_insert cmp x ys) =
     (case first_element ys of
        None \<Rightarrow> Some x
      | Some y \<Rightarrow> if cmp x y \<le> 0 then Some x else Some y)"
  by (cases ys) (simp_all add: first_element_def)

text \<open>
  The head of an array sorted stably by a key is the first element of the array whose
  key is minimal: everything before it has a strictly larger key, nothing after it has
  a smaller one.
\<close>

lemma sorted_head_first_minimum:
  assumes "xs \<noteq> []"
  shows "\<exists>b ys zs. first_element (array_sort (\<lambda>a b. key a - key b) xs) = Some b
           \<and> xs = ys @ b # zs
           \<and> (\<forall>e\<in>set ys. key b < key e)
           \<and> (\<forall>e\<in>set zs. key b \<le> (key e :: int))"
  using assms
proof (induction xs)
  case Nil
  then show ?case by simp
next
  case (Cons x xs)
  let ?cmp = "\<lambda>a b. key a - key b"
  show ?case
  proof (cases "xs = []")
    case True
    have "[x] = [] @ x # []" by simp
    then show ?thesis using True
      by (simp add: first_element_def) (metis append_Nil empty_iff empty_set)
  next
    case False
    from Cons.IH [OF False] obtain m ys zs where
      m: "first_element (array_sort ?cmp xs) = Some m" and
      xs: "xs = ys @ m # zs" and
      before: "\<forall>e\<in>set ys. key m < key e" and
      after: "\<forall>e\<in>set zs. key m \<le> key e"
      by blast
    show ?thesis
    proof (cases "key x \<le> key m")
      case True
      have "first_element (array_sort ?cmp (x # xs)) = Some x"
        using m True by (simp add: first_element_sort_insert)
      moreover have "x # xs = [] @ x # xs" by simp
      moreover have "\<forall>e\<in>set xs. key x \<le> key e"
        using xs before after True by auto
      ultimately show ?thesis by (metis empty_iff empty_set)
    next
      case False
      have "first_element (array_sort ?cmp (x # xs)) = Some m"
        using m False by (simp add: first_element_sort_insert)
      moreover have "x # xs = (x # ys) @ m # zs" using xs by simp
      moreover have "\<forall>e\<in>set (x # ys). key m < key e"
        using before False by auto
      ultimately show ?thesis using after by blast
    qed
  qed
qed

lemma newBaud_first_minimum:
  "\<exists>b ys zs. newBaud r = Some b
     \<and> SupportedBaudrates = ys @ b # zs
     \<and> (\<forall>e\<in>set ys. \<bar>b - r\<bar> < \<bar>e - r\<bar>)
     \<and> (\<forall>e\<in>set zs. \<bar>b - r\<bar> \<le> \<bar>e - r\<bar>)"
proof -
  have ne: "SupportedBaudrates \<noteq> []" by (simp add: SupportedBaudrates_def)
  have cmp: "baud_distance_cmp r = (\<lambda>a b. \<bar>a - r\<bar> - \<bar>b - r\<bar>)"
    by (rule ext, rule ext) (simp add: baud_distance_cmp_def)
  show ?thesis
    unfolding newBaud_def cmp
    by (rule sorted_head_first_minimum [OF ne, where key = "\<lambda>a. \<bar>a - r\<bar>"])
qed

lemma newBaud_in_table:
  assumes "newBaud r = Some b"
  shows "b \<in> set SupportedBaudrates"
proof -
  obtain b' ys zs where "newBaud r = Some b'" and "SupportedBaudrates = ys @ b' # zs"
    using newBaud_first_minimum [of r] by blast
  with assms have "SupportedBaudrates = ys @ b # zs" by simp
  then show ?thesis by (metis in_set_conv_decomp)
qed

text \<open>
  Claim C1: for every requested baud rate \<open>r \<le> 115200\<close>, the rate that
  \<^verbatim>\<open>setBaudrate\<close> selects is the entry of the supported-rate table that minimises the
  absolute difference \<open>\<bar>entry - r\<bar>\<close>; of two equidistant entries the first one in the
  table's ascending order, the lower value, is selected (the sort being stable); and
  for \<open>r\<close> equal to a table entry the selected rate is \<open>r\<close>.
\<close>

theorem setBaudrate_selects_nearest:
  assumes "r \<le> 115200"
  shows "\<exists>b ys zs. setBaudrate_rate r = Inr (Some b)
           \<and> SupportedBaudrates = ys @ b # zs
           \<and> (\<forall>e\<in>set SupportedBaudrates. \<bar>b - r\<bar> \<le> \<bar>e - r\<bar>)
           \<and> (\<forall>e\<in>set ys. \<bar>b - r\<bar> < \<bar>e - r\<bar>)
           \<and> (\<forall>e\<in>set SupportedBaudrates. \<bar>e - r\<bar> = \<bar>b - r\<bar> \<longrightarrow> b \<le> e)
           \<and> (r \<in> set SupportedBaudrates \<longrightarrow> b = r)"
proof -
  obtain b ys zs where
    sel: "newBaud r = Some b" and
    tab: "SupportedBaudrates = ys @ b # zs" and
    before: "\<forall>e\<in>set ys. \<bar>b - r\<bar> < \<bar>e - r\<bar>" and
    after: "\<forall>e\<in>set zs. \<bar>b - r\<bar> \<le> \<bar>e - r\<bar>"
    using newBaud_first_minimum [of r] by blast
  have rate: "setBaudrate_rate r = Inr (Some b)"
    using assms sel by (simp add: setBaudrate_rate_def)
  have members: "set SupportedBaudrates = set ys \<union> {b} \<union> set zs"
    by (simp add: tab)
  have nearest: "\<forall>e\<in>set SupportedBaudrates. \<bar>b - r\<bar> \<le> \<bar>e - r\<bar>"
    unfolding members using before after by auto
  have "sorted_wrt (<) (ys @ b # zs)"
    using SupportedBaudrates_ascending by (simp add: tab)
  then have above: "\<forall>e\<in>set zs. b < e"
    by (simp add: sorted_wrt_append)
  have lower: "\<forall>e\<in>set SupportedBaudrates. \<bar>e - r\<bar> = \<bar>b - r\<bar> \<longrightarrow> b \<le> e"
    unfolding members using before above by auto
  have exact: "r \<in> set SupportedBaudrates \<longrightarrow> b = r"
  proof
    assume "r \<in> set SupportedBaudrates"
    with nearest have "\<bar>b - r\<bar> \<le> \<bar>r - r\<bar>" by blast
    then show "b = r" by simp
  qed
  from rate tab nearest before lower exact show ?thesis by blast
qed

text \<open>
  The theorem at 9600, an entry of the table, beside the selections computed for 100000
  (nearest neighbour 115200) and for the ties 225 and 86400 (the lower neighbour).
\<close>

theorem setBaudrate_selects_nearest_witness:
  "(9600::int) \<le> 115200
   \<and> setBaudrate_rate 9600 = Inr (Some 9600)
   \<and> setBaudrate_rate 100000 = Inr (Some 115200)
   \<and> setBaudrate_rate 225 = Inr (Some 150)
   \<and> setBaudrate_rate 86400 = Inr (Some 57600)"
proof -
  have le: "(9600::int) \<le> 115200" by simp
  obtain b where b: "setBaudrate_rate 9600 = Inr (Some b)"
    and exact: "9600 \<in> set SupportedBaudrates \<longrightarrow> b = 9600"
    using setBaudrate_selects_nearest [OF le] by blast
  have "(9600::int) \<in> set SupportedBaudrates" by (simp add: SupportedBaudrates_def)
  with b exact have "setBaudrate_rate 9600 = Inr (Some 9600)" by simp
  moreover have "setBaudrate_rate 100000 = Inr (Some 115200)"
    by (simp add: setBaudrate_rate_def newBaud_def SupportedBaudrates_def
        baud_distance_cmp_def first_element_def)
  moreover have "setBaudrate_rate 225 = Inr (Some 150)"
    by (simp add: setBaudrate_rate_def newBaud_def SupportedBaudrates_def
        baud_distance_cmp_def first_element_def)
  moreover have "setBaudrate_rate 86400 = Inr (Some 57600)"
    by (simp add: setBaudrate_rate_def newBaud_def SupportedBaudrates_def
        baud_distance_cmp_def first_element_def)
  ultimately show ?thesis by simp
qed

section \<open>The vendor register protocol\<close>

text \<open>
  Claim C5, as stated: \<^verbatim>\<open>vendorWrite(regIndex, value)\<close> issues a control transfer whose
  data payload equals the numeric value. It does not: \<^verbatim>\<open>vendorWrite(2, 0x44)\<close> sends
  an empty payload, which denotes 0 and not 0x44.
\<close>

theorem vendorWrite_payload_not_value:
  "\<not> payload_carries
       (dataOrLength (last (issued (snd (vendorWrite (hx_device 1) 2 0x44 initial_state))))) 0x44"
  by (simp add: vendorWrite_def controlTransfer_def initial_state_def hx_device_def
      payload_carries_def)

text \<open>
  Claim C5, amended: for every register index and numeric value,
  \<^verbatim>\<open>vendorWrite(regIndex, value)\<close> issues one host-to-device control transfer with
  request type 0x40, request 0x01, the value field equal to \<open>regIndex\<close>, the index
  field equal to the numeric value, and a zero-length data payload whatever the value.
\<close>

theorem vendorWrite_request_issued:
  "issued (snd (vendorWrite dev regIndex v s)) =
     issued s @ [\<lparr>bmRequestType = 0x40, bRequest = 0x01, wValue = regIndex, wIndex = v,
                  dataOrLength = Data []\<rparr>]"
  by (simp add: vendorWrite_def controlTransfer_def Let_def split: sum.splits)

section \<open>The limit of 115200\<close>

text \<open>
  Claim C7: for every requested baud rate \<open>r > 115200\<close>, the negotiation fails by
  the assertion \<^verbatim>\<open>baud <= 115200\<close> and never clamps \<open>r\<close> to a table value; the
  assertion is checked before a rate is selected and before any line-configuration
  transfer is issued: \<^verbatim>\<open>setBaudrate\<close> is rejected with the state untouched.
\<close>

theorem setBaudrate_asserts_limit:
  assumes "115200 < r"
  shows "setBaudrate_rate r = Inl AssertionError
         \<and> setBaudrate dev r s = (Inl AssertionError, s)"
  using assms by (simp add: setBaudrate_rate_def setBaudrate_def throw_def)

text \<open>At 230400, although it is an entry of the table.\<close>

theorem setBaudrate_asserts_limit_witness:
  "(115200::int) < 230400
   \<and> setBaudrate_rate 230400 = Inl AssertionError
   \<and> setBaudrate (hx_device 1) 230400 initial_state = (Inl AssertionError, initial_state)"
proof -
  have gt: "(115200::int) < 230400" by simp
  show ?thesis
    using gt setBaudrate_asserts_limit [OF gt, of "hx_device 1" initial_state] by simp
qed

section \<open>send\<close>

text \<open>
  Claim C9: for every buffer \<open>b\<close>, \<^verbatim>\<open>send(b)\<close> on a constructed session triggers
  exactly one bulk-out transfer, on the session's bulk-out endpoint, whose payload is
  \<open>b\<close> itself, unmodified and in one piece; the caller gets nothing back (the result is
  the unit value: no acknowledgment of completion).
\<close>

theorem send_one_transfer:
  "send this (JBuffer b) log = (Inr (), log @ [(outEp this, JBuffer b)])"
  by (simp add: send_def assert_def instanceof_Buffer_def)

text \<open>
  Claim C10: for every argument \<open>d\<close> that is not a Buffer, \<^verbatim>\<open>send(d)\<close> fails the
  assertion \<^verbatim>\<open>data instanceof Buffer\<close> before any bulk-out transfer is attempted (the
  log of transfers is unchanged); a transfer is issued only when the argument is a
  Buffer.
\<close>

theorem send_asserts_Buffer:
  "(\<not> instanceof_Buffer d \<longrightarrow> send this d log = (Inl AssertionError, log))
   \<and> (snd (send this d log) \<noteq> log \<longrightarrow> instanceof_Buffer d)"
  by (simp add: send_def assert_def)

text \<open>A string is not a Buffer, so sending one fails and transfers nothing.\<close>

theorem send_asserts_Buffer_witness:
  "\<not> instanceof_Buffer (JString ''Hello!'')
   \<and> send hx_session (JString ''Hello!'') [] = (Inl AssertionError, [])"
proof -
  have s: "\<not> instanceof_Buffer (JString ''Hello!'')"
    by (simp add: instanceof_Buffer_def)
  have "\<not> instanceof_Buffer (JString ''Hello!'')
        \<longrightarrow> send hx_session (JString ''Hello!'') [] = (Inl AssertionError, [])"
    by (rule conjunct1 [OF send_asserts_Buffer])
  with s show ?thesis by blast
qed

section \<open>The constructor\<close>

lemma bind_r_Inr:
  "bind_r r f = Inr y \<longleftrightarrow> (\<exists>a. r = Inr a \<and> f a = Inr y)"
  by (cases r) (simp_all add: bind_r_def)

lemma assert_Inr: "assert b = Inr u \<longleftrightarrow> b"
  by (simp add: assert_def)

lemma findEp_Inr:
  assumes "findEp ifc ty dir = Inr e"
  shows "e \<in> set (endpoints ifc) \<and> transferType e = ty \<and> direction e = dir"
proof -
  let ?eps = "filter (\<lambda>e. transferType e = ty \<and> direction e = dir) (endpoints ifc)"
  from assms obtain rest where "?eps = e # rest"
    by (auto simp: findEp_def Let_def bind_r_Inr assert_Inr split: list.splits)
  then have "e \<in> set ?eps" by simp
  then show ?thesis by simp
qed

text \<open>
  Claim C8: construction with port index \<open>p\<close> is a fatal error that produces no session
  object unless at least \<open>p + 1\<close> of the enumerated devices have vendor 0x067B and
  product 0x2303, and the selected device has a class other than 0x02, a maximal
  control-packet size of 0x40, and exactly one interface. When a session is produced,
  its device is the one at position \<open>p\<close> among the matching devices in enumeration
  order: a device of the list, with that vendor and product; its interface is the
  device's only one, its bulk-out endpoint is an endpoint of that interface, and the
  bring-up chain has run on that device with the requested rate (9600 by default). Too
  few matching devices, and each of the three descriptor checks when it fails, end the
  constructor with an assertion failure.
\<close>

theorem UsbSerial_preconditions:
  "(let p = js_or (port options) 0;
        matching = filter (\<lambda>d. idVendor d = 0x067b \<and> idProduct d = 0x2303) deviceList
    in (UsbSerial deviceList options = Inr (sess, st) \<longrightarrow>
          0 \<le> p
          \<and> nat p + 1 \<le> length matching
          \<and> device sess = matching ! nat p
          \<and> device sess \<in> set deviceList
          \<and> idVendor (device sess) = 0x067b
          \<and> idProduct (device sess) = 0x2303
          \<and> bDeviceClass (device sess) \<noteq> 0x02
          \<and> bMaxPacketSize0 (device sess) = 0x40
          \<and> interfaces (device sess) = [iface sess]
          \<and> outEp sess \<in> set (endpoints (iface sess))
          \<and> transferType (outEp sess) = LIBUSB_TRANSFER_TYPE_BULK
          \<and> direction (outEp sess) = ''out''
          \<and> st = bringUp_run (device sess) (js_or (baudRate options) 9600))
       \<and> (int (length matching) \<le> p \<longrightarrow> UsbSerial deviceList options = Inl AssertionError)
       \<and> (0 \<le> p \<and> nat p < length matching
            \<and> (bDeviceClass (matching ! nat p) = 0x02
               \<or> bMaxPacketSize0 (matching ! nat p) \<noteq> 0x40
               \<or> length (interfaces (matching ! nat p)) \<noteq> 1)
            \<longrightarrow> UsbSerial deviceList options = Inl AssertionError))"
proof -
  define p where "p = js_or (port options) 0"
  define matching where
    "matching = filter (\<lambda>d. idVendor d = 0x067b \<and> idProduct d = 0x2303) deviceList"
  have found: "findDevices deviceList 0x067b 0x2303 = matching"
    by (simp add: findDevices_def matching_def)
  have few: "UsbSerial deviceList options = Inl AssertionError" if "int (length matching) \<le> p"
    using that by (simp add: UsbSerial_def Let_def bind_r_def assert_def found flip: p_def)
  have bad: "UsbSerial deviceList options = Inl AssertionError"
    if "0 \<le> p \<and> nat p < length matching
        \<and> (bDeviceClass (matching ! nat p) = 0x02
           \<or> bMaxPacketSize0 (matching ! nat p) \<noteq> 0x40
           \<or> length (interfaces (matching ! nat p)) \<noteq> 1)"
  proof -
    from that have "int (length matching) > p" by linarith
    with that show ?thesis
      by (auto simp: UsbSerial_def Let_def bind_r_def assert_def found simp flip: p_def)
  qed
  have good: "0 \<le> p
          \<and> nat p + 1 \<le> length matching
          \<and> device sess = matching ! nat p
          \<and> device sess \<in> set deviceList
          \<and> idVendor (device sess) = 0x067b
          \<and> idProduct (device sess) = 0x2303
          \<and> bDeviceClass (device sess) \<noteq> 0x02
          \<and> bMaxPacketSize0 (device sess) = 0x40
          \<and> interfaces (device sess) = [iface sess]
          \<and> outEp sess \<in> set (endpoints (iface sess))
          \<and> transferType (outEp sess) = LIBUSB_TRANSFER_TYPE_BULK
          \<and> direction (outEp sess) = ''out''
          \<and> st = bringUp_run (device sess) (js_or (baudRate options) 9600)"
    if ok: "UsbSerial deviceList options = Inr (sess, st)"
  proof -
    from ok have len: "int (length matching) > p"
      by (simp add: UsbSerial_def Let_def bind_r_Inr assert_Inr found flip: p_def)
    from ok have nonneg: "0 \<le> p"
      by (auto simp: UsbSerial_def Let_def bind_r_Inr assert_Inr found simp flip: p_def
          split: if_splits)
    from len nonneg have inrange: "nat p < length matching" by linarith
    from ok nonneg obtain ifc out where
      checks: "bDeviceClass (matching ! nat p) \<noteq> 0x02"
        "bMaxPacketSize0 (matching ! nat p) = 0x40"
        "length (interfaces (matching ! nat p)) = 1" and
      ifc: "(case interfaces (matching ! nat p) of [] \<Rightarrow> Inl TypeError | i # _ \<Rightarrow> Inr i) = Inr ifc" and
      out: "findEp ifc LIBUSB_TRANSFER_TYPE_BULK ''out'' = Inr out" and
      result: "sess = \<lparr>device = matching ! nat p, iface = ifc, outEp = out\<rparr>"
        "st = bringUp_run (matching ! nat p) (js_or (baudRate options) 9600)"
      by (auto simp: UsbSerial_def Let_def bind_r_Inr assert_Inr found simp flip: p_def
          split: if_splits)
    from checks(3) ifc have single: "interfaces (matching ! nat p) = [ifc]"
      by (cases "interfaces (matching ! nat p)") simp_all
    from inrange have "matching ! nat p \<in> set matching" by simp
    then have member: "matching ! nat p \<in> set deviceList"
      "idVendor (matching ! nat p) = 0x067b" "idProduct (matching ! nat p) = 0x2303"
      by (simp_all add: matching_def)
    from findEp_Inr [OF out] result(1) have ep: "outEp sess \<in> set (endpoints (iface sess))"
      "transferType (outEp sess) = LIBUSB_TRANSFER_TYPE_BULK" "direction (outEp sess) = ''out''"
      by simp_all
    from nonneg inrange checks single member ep result show ?thesis by simp
  qed
  from few bad good show ?thesis
    unfolding Let_def p_def [symmetric] matching_def [symmetric] by blast
qed

lemma findDevices_two_adapters:
  "findDevices two_adapters 0x067b 0x2303 = [hx_device 1, hx_device 2]"
  by (simp add: findDevices_def two_adapters_def hx_device_def other_device_def)

lemma UsbSerial_two_adapters_0:
  "UsbSerial two_adapters \<lparr>port = None, baudRate = None\<rparr> =
     Inr (hx_session, bringUp_run (hx_device 1) 9600)"
  by (simp add: UsbSerial_def Let_def js_or_def findDevices_two_adapters bind_r_def assert_def
      findEp_def LIBUSB_TRANSFER_TYPE_BULK_def LIBUSB_TRANSFER_TYPE_INTERRUPT_def
      hx_session_def)
     (simp add: hx_device_def hx_interface_def)

lemma UsbSerial_two_adapters_1:
  "UsbSerial two_adapters \<lparr>port = Some 1, baudRate = Some 38400\<rparr> =
     Inr (hx_session\<lparr>device := hx_device 2\<rparr>, bringUp_run (hx_device 2) 38400)"
  by (simp add: UsbSerial_def Let_def js_or_def findDevices_two_adapters bind_r_def assert_def
      findEp_def LIBUSB_TRANSFER_TYPE_BULK_def LIBUSB_TRANSFER_TYPE_INTERRUPT_def
      hx_session_def)
     (simp add: hx_device_def hx_interface_def)

lemma two_adapters_matching:
  "filter (\<lambda>d. idVendor d = 0x067b \<and> idProduct d = 0x2303) two_adapters =
     [hx_device 1, hx_device 2]"
  by (simp add: two_adapters_def hx_device_def other_device_def)

text \<open>
  With exactly two matching devices: port 0 (the default) selects the first, port 1
  the second, and port 2 fails the assertion, as does any port on an empty bus.
\<close>

theorem UsbSerial_preconditions_witness:
  "map_sum id (deviceAddress \<circ> device \<circ> fst)
     (UsbSerial two_adapters \<lparr>port = None, baudRate = None\<rparr>) = Inr 1
   \<and> map_sum id (deviceAddress \<circ> device \<circ> fst)
     (UsbSerial two_adapters \<lparr>port = Some 1, baudRate = Some 38400\<rparr>) = Inr 2
   \<and> UsbSerial two_adapters \<lparr>port = Some 2, baudRate = None\<rparr> = Inl AssertionError
   \<and> UsbSerial [] \<lparr>port = None, baudRate = None\<rparr> = Inl AssertionError"
proof -
  let ?o0 = "\<lparr>port = None, baudRate = None\<rparr>"
  let ?o1 = "\<lparr>port = Some 1, baudRate = Some 38400\<rparr>"
  let ?o2 = "\<lparr>port = Some 2, baudRate = None\<rparr>"
  let ?matching = "\<lambda>l. filter (\<lambda>d. idVendor d = 0x067b \<and> idProduct d = 0x2303) l"
  have "device hx_session = ?matching two_adapters ! nat (js_or (port ?o0) 0)"
    using UsbSerial_preconditions [where deviceList = two_adapters and options = ?o0
        and sess = hx_session and st = "bringUp_run (hx_device 1) 9600"]
      UsbSerial_two_adapters_0
    unfolding Let_def by blast
  then have first: "device hx_session = hx_device 1"
    by (simp add: two_adapters_matching js_or_def)
  have few: "int (length (?matching two_adapters)) \<le> js_or (port ?o2) 0"
    by (simp add: two_adapters_matching js_or_def)
  have third: "UsbSerial two_adapters ?o2 = Inl AssertionError"
    using UsbSerial_preconditions [where deviceList = two_adapters and options = ?o2] few
    unfolding Let_def by blast
  have none: "int (length (?matching [])) \<le> js_or (port ?o0) 0"
    by (simp add: js_or_def)
  have fourth: "UsbSerial [] ?o0 = Inl AssertionError"
    using UsbSerial_preconditions [where deviceList = "[]" and options = ?o0] none
    unfolding Let_def by blast
  show ?thesis
    using first third fourth
    by (simp add: UsbSerial_two_adapters_0 UsbSerial_two_adapters_1 hx_device_def)
qed

section \<open>Little-endian encoding of the rate\<close>

lemma unat_low_byte: "unat (ucast (w :: 32 word) :: 8 word) = unat w mod 256"
  by (simp add: unsigned_ucast_eq take_bit_eq_mod)

lemma unat_shifted_byte:
  "unat (ucast (drop_bit k (w :: 32 word)) :: 8 word) = unat w div 2 ^ k mod 256"
  unfolding unat_low_byte unat_drop_bit_eq by (simp add: drop_bit_eq_div)

lemma four_bytes_value:
  assumes "n < (4294967296 :: nat)"
  shows "n mod 256 + 256 * (n div 256 mod 256 + 256 * (n div 65536 mod 256
            + 256 * (n div 16777216 mod 256))) = n"
proof -
  let ?a = "n div 256"
  let ?b = "?a div 256"
  let ?c = "?b div 256"
  have b: "n div 65536 = ?b" by (simp add: div_mult2_eq)
  have c: "n div 16777216 = ?c" by (simp add: div_mult2_eq)
  have "?c < 256" using assms by (simp add: div_mult2_eq less_mult_imp_div_less)
  then have top: "?c mod 256 = ?c" by simp
  have "?b mod 256 + 256 * ?c = ?b" by (rule mod_mult_div_eq)
  moreover have "?a mod 256 + 256 * ?b = ?a" by (rule mod_mult_div_eq)
  moreover have "n mod 256 + 256 * ?a = n" by (rule mod_mult_div_eq)
  ultimately show ?thesis unfolding b c top by simp
qed

lemma le_value_int32_le_bytes:
  assumes "0 \<le> v" "v < 2 ^ 32"
  shows "int (le_value (int32_le_bytes v)) = v"
proof -
  define n where "n = unat (word_of_int v :: 32 word)"
  have n: "int n = v"
    using assms unfolding n_def by (simp add: unat_eq_nat_uint uint_word_of_int)
  have bound: "n < 4294967296" using n assms by simp
  let ?w = "word_of_int v :: 32 word"
  have b0: "unat (ucast ?w :: 8 word) = n mod 256"
    unfolding n_def by (rule unat_low_byte)
  have b1: "unat (ucast (drop_bit 8 ?w) :: 8 word) = n div 256 mod 256"
    unfolding n_def unat_shifted_byte by simp
  have b2: "unat (ucast (drop_bit 16 ?w) :: 8 word) = n div 65536 mod 256"
    unfolding n_def unat_shifted_byte by simp
  have b3: "unat (ucast (drop_bit 24 ?w) :: 8 word) = n div 16777216 mod 256"
    unfolding n_def unat_shifted_byte by simp
  have "le_value (int32_le_bytes v) =
          n mod 256 + 256 * (n div 256 mod 256 + 256 * (n div 65536 mod 256
            + 256 * (n div 16777216 mod 256)))"
    by (simp add: int32_le_bytes_def Let_def b0 b1 b2 b3)
  also have "\<dots> = n" by (rule four_bytes_value [OF bound])
  finally show ?thesis using n by simp
qed

lemma setBaudrate_parameters_7:
  assumes "length data = 7" "- (2 ^ 31) \<le> v" "v \<le> 2 ^ 31 - 1"
  shows "setBaudrate_parameters (Some v) data = Inr (int32_le_bytes v @ [0, 0, 8])"
proof -
  from assms(1) obtain a b c d e f g where "data = [a, b, c, d, e, f, g]"
    by (auto simp: length_Suc_conv eval_nat_numeral)
  then show ?thesis
    using assms(2,3)
    by (simp add: setBaudrate_parameters_def writeInt32LE_def set_index_def int32_le_bytes_def
        Let_def)
qed

section \<open>Runs of promise chains\<close>

subsection \<open>answered\<close>

lemma answered_Nil: "answered dev []"
  by (simp add: answered_def)

lemma answered_snoc:
  "answered dev (tr @ [q]) \<longleftrightarrow> answered dev tr \<and> (\<exists>d. respond dev tr q = Inr d)"
  by (auto simp: answered_def less_Suc_eq nth_append)

lemma answered_failure_last:
  assumes "answered dev h" "respond dev h q = Inl x"
    and "k < length (h @ [q])"
    and "respond dev (take k (h @ [q])) ((h @ [q]) ! k) = Inl y"
  shows "k = length h \<and> y = x"
proof (cases "k < length h")
  case True
  with assms(1) obtain d where "respond dev (take k h) (h ! k) = Inr d"
    unfolding answered_def by blast
  with True assms(4) show ?thesis by (simp add: nth_append)
next
  case False
  with assms(3) have "k = length h" by simp
  with assms(2,4) show ?thesis by simp
qed

subsection \<open>halting\<close>

lemma halting_controlTransfer: "halting dev (controlTransfer dev a b c d e)"
  unfolding halting_def settled_def
  by (auto simp: controlTransfer_def Let_def stopped_def answered_snoc split: sum.splits)

lemma halting_resolve: "halting dev (resolve a)"
  by (simp add: halting_def settled_def resolve_def)

lemma halting_throw: "\<forall>x. e \<noteq> TransportError x \<Longrightarrow> halting dev (throw e)"
  by (cases e) (simp_all add: halting_def settled_def throw_def stopped_def)

lemma halting_then:
  assumes "halting dev p" "\<And>a. halting dev (f a)"
  shows "halting dev (then_p p f)"
  unfolding halting_def
proof (intro allI impI)
  fix s :: run_state
  assume s: "answered dev (issued s)"
  obtain r s' where ps: "p s = (r, s')" by (cases "p s")
  from assms(1) s ps have r: "settled dev r (issued s')"
    by (auto simp: halting_def)
  show "settled dev (fst (then_p p f s)) (issued (snd (then_p p f s)))"
  proof (cases r)
    case (Inl e)
    then have "then_p p f s = (Inl e, s')" using ps by (simp add: then_p_def)
    with r Inl show ?thesis by (simp add: settled_def)
  next
    case (Inr a)
    with r have "answered dev (issued s')" by (simp add: settled_def)
    with assms(2) [of a] have "settled dev (fst (f a s')) (issued (snd (f a s')))"
      by (simp add: halting_def)
    moreover have "then_p p f s = f a s'" using Inr ps by (simp add: then_p_def)
    ultimately show ?thesis by simp
  qed
qed

lemma setBaudrate_parameters_error:
  "setBaudrate_parameters rate data = Inl e \<Longrightarrow> \<forall>x. e \<noteq> TransportError x"
  by (auto simp: setBaudrate_parameters_def writeInt32LE_def split: option.splits if_splits sum.splits)

lemma halting_setBaudrate: "halting dev (setBaudrate dev baud)"
proof (cases "setBaudrate_rate baud")
  case (Inl e)
  then have "e = AssertionError" by (simp add: setBaudrate_rate_def split: if_splits)
  with Inl show ?thesis by (simp add: setBaudrate_def halting_throw)
next
  case (Inr rate)
  have cb: "halting dev (case setBaudrate_parameters rate data of
                 Inl e \<Rightarrow> throw e
               | Inr parameters \<Rightarrow> controlTransfer dev 0x21 0x20 0 0 (Data parameters))" for data
    by (cases "setBaudrate_parameters rate data")
       (auto intro: halting_throw halting_controlTransfer dest: setBaudrate_parameters_error)
  show ?thesis
    unfolding setBaudrate_def Inr vendorWrite_def
    by (simp, intro halting_then halting_controlTransfer cb)
qed

lemma halting_bringUp_registers: "halting dev (bringUp_registers dev bitrate)"
  unfolding bringUp_registers_def vendorRead_def vendorWrite_def
  by (intro halting_then halting_controlTransfer halting_resolve halting_setBaudrate)

subsection \<open>issuing\<close>

lemma seq_single: "seq {a} {b} = {a @ b}"
  by (auto simp: seq_def)

lemma seq_single_range: "seq {a} (range f) = range (\<lambda>x. a @ f x)"
  by (auto simp: seq_def)

lemma seq_range_single: "seq (range f) {b} = range (\<lambda>x. f x @ b)"
  by (auto simp: seq_def)

lemma issuing_mono: "issuing R p \<Longrightarrow> R \<subseteq> R' \<Longrightarrow> issuing R' p"
  unfolding issuing_def by (meson subsetD)

lemma issuing_controlTransfer:
  "issuing {[\<lparr>bmRequestType = a, bRequest = b, wValue = c, wIndex = d, dataOrLength = e\<rparr>]}
     (controlTransfer dev a b c d e)"
  unfolding issuing_def
proof (intro allI conjI)
  fix s :: run_state
  let ?req = "\<lparr>bmRequestType = a, bRequest = b, wValue = c, wIndex = d, dataOrLength = e\<rparr>"
  let ?out = "controlTransfer dev a b c d e s"
  have st: "snd ?out = s\<lparr>issued := issued s @ [?req]\<rparr>"
    by (simp add: controlTransfer_def Let_def split: sum.splits)
  show "emitted (snd ?out) = emitted s" by (simp add: st)
  show "inEp_polling (snd ?out) = inEp_polling s" by (simp add: st)
  show "intEp_polling (snd ?out) = intEp_polling s" by (simp add: st)
  have "issued (snd ?out) = issued s @ take 1 [?req]" by (simp add: st)
  then show "\<exists>rs\<in>{[?req]}. \<exists>k\<le>length rs. issued (snd ?out) = issued s @ take k rs
                \<and> (isl (fst ?out) \<or> k = length rs)"
    by force
qed

lemma issuing_resolve: "issuing {[]} (resolve a)"
  by (simp add: issuing_def resolve_def)

lemma issuing_throw: "rs \<in> R \<Longrightarrow> issuing R (throw e)"
  unfolding issuing_def throw_def by (intro allI conjI; simp) (rule bexI [of _ rs], auto)

lemma issuing_then:
  fixes p :: "'a promise" and f :: "'a \<Rightarrow> 'b promise"
  assumes "issuing R p" "\<And>a. issuing R' (f a)"
  shows "issuing (seq R R') (then_p p f)"
  unfolding issuing_def
proof (intro allI)
  fix s :: run_state
  obtain r s' where ps: "p s = (r, s')" by (cases "p s")
  from assms(1) ps obtain rs k where
    frame: "emitted s' = emitted s" "inEp_polling s' = inEp_polling s"
      "intEp_polling s' = intEp_polling s" and
    rs: "rs \<in> R" "k \<le> length rs" "issued s' = issued s @ take k rs"
      "isl r \<or> k = length rs"
    unfolding issuing_def by (metis fst_conv snd_conv)
  let ?goal = "\<lambda>t. emitted (snd t) = emitted s \<and> inEp_polling (snd t) = inEp_polling s
        \<and> intEp_polling (snd t) = intEp_polling s
        \<and> (\<exists>rs\<in>seq R R'. \<exists>k\<le>length rs. issued (snd t) = issued s @ take k rs
              \<and> (isl (fst t) \<or> k = length rs))"
  show "?goal (then_p p f s)"
  proof (cases r)
    case (Inl e)
    then have out: "then_p p f s = (Inl e, s')" using ps by (simp add: then_p_def)
    from assms(2) obtain rs' where rs': "rs' \<in> R'"
      unfolding issuing_def by blast
    have mem: "rs @ rs' \<in> seq R R'" using rs(1) rs' by (auto simp: seq_def)
    have "k \<le> length (rs @ rs') \<and> issued s' = issued s @ take k (rs @ rs')
            \<and> (isl (Inl e :: error + 'b) \<or> k = length (rs @ rs'))"
      using rs(2,3) by simp
    then have "\<exists>rs\<in>seq R R'. \<exists>k\<le>length rs. issued s' = issued s @ take k rs
                 \<and> (isl (Inl e :: error + 'b) \<or> k = length rs)"
      using mem by blast
    then show ?thesis using frame unfolding out by simp
  next
    case (Inr a)
    then have out: "then_p p f s = f a s'" using ps by (simp add: then_p_def)
    from Inr rs(4) have k: "k = length rs" by simp
    from assms(2) [of a] obtain rs' k' where
      frame': "emitted (snd (f a s')) = emitted s'" "inEp_polling (snd (f a s')) = inEp_polling s'"
        "intEp_polling (snd (f a s')) = intEp_polling s'" and
      rs': "rs' \<in> R'" "k' \<le> length rs'" "issued (snd (f a s')) = issued s' @ take k' rs'"
        "isl (fst (f a s')) \<or> k' = length rs'"
      unfolding issuing_def by metis
    have mem: "rs @ rs' \<in> seq R R'" using rs(1) rs'(1) by (auto simp: seq_def)
    have "length rs + k' \<le> length (rs @ rs')
            \<and> issued (snd (f a s')) = issued s @ take (length rs + k') (rs @ rs')
            \<and> (isl (fst (f a s')) \<or> length rs + k' = length (rs @ rs'))"
      using rs(3) rs'(2,3,4) k by auto
    then have "\<exists>rs\<in>seq R R'. \<exists>k\<le>length rs. issued (snd (f a s')) = issued s @ take k rs
                 \<and> (isl (fst (f a s')) \<or> k = length rs)"
      using mem by blast
    then show ?thesis using frame frame' unfolding out by simp
  qed
qed

lemma range_line_requests_nonempty: "line_requests [] \<in> range line_requests"
  by simp

lemma issuing_setBaudrate: "issuing (range line_requests) (setBaudrate dev baud)"
proof (cases "setBaudrate_rate baud")
  case (Inl e)
  then show ?thesis
    by (simp add: setBaudrate_def issuing_throw [OF range_line_requests_nonempty])
next
  case (Inr rate)
  have cb: "issuing (range (\<lambda>payload. [setLine_request payload]))
              (case setBaudrate_parameters rate data of
                 Inl e \<Rightarrow> throw e
               | Inr parameters \<Rightarrow> controlTransfer dev 0x21 0x20 0 0 (Data parameters))" for data
  proof (cases "setBaudrate_parameters rate data")
    case (Inl e)
    then show ?thesis by (simp add: issuing_throw [of "[setLine_request []]"])
  next
    case (Inr parameters)
    have "issuing {[setLine_request parameters]}
            (controlTransfer dev 0x21 0x20 0 0 (Data parameters))"
      unfolding setLine_request_def by (rule issuing_controlTransfer)
    then show ?thesis unfolding Inr by (simp add: issuing_mono)
  qed
  have "issuing
          (seq (seq (seq (seq {[getLine_request]} (range (\<lambda>payload. [setLine_request payload])))
             {[vendorWrite_request 0 0]}) {[vendorWrite_request 8 0]}) {[vendorWrite_request 9 0]})
          (setBaudrate dev baud)"
    unfolding setBaudrate_def Inr vendorWrite_def getLine_request_def vendorWrite_request_def
    by (simp, intro issuing_then issuing_controlTransfer cb)
  then show ?thesis
    by (simp add: seq_single_range seq_range_single line_requests_def [abs_def])
qed

lemma issuing_vendorRead: "issuing {[vendorRead_request v i]} (vendorRead dev v i)"
proof -
  have "issuing (seq {[vendorRead_request v i]} {[]}) (vendorRead dev v i)"
    unfolding vendorRead_def vendorRead_request_def
    by (intro issuing_then issuing_controlTransfer issuing_resolve)
  then show ?thesis by (simp add: seq_single)
qed

lemma issuing_vendorWrite: "issuing {[vendorWrite_request v i]} (vendorWrite dev v i)"
  unfolding vendorWrite_def vendorWrite_request_def by (rule issuing_controlTransfer)

lemma bringup_sequence_split:
  "bringup_sequence payload =
     [vendorRead_request 0x8484 0] @ [vendorWrite_request 0x0404 0] @
     [vendorRead_request 0x8484 0] @ [vendorRead_request 0x8383 0] @
     [vendorRead_request 0x8484 0] @ [vendorWrite_request 0x0404 1] @
     [vendorRead_request 0x8484 0] @ [vendorRead_request 0x8383 0] @
     [vendorWrite_request 0 1] @ [vendorWrite_request 1 0] @
     [vendorWrite_request 2 0x44] @ line_requests payload"
  by (simp add: bringup_sequence_def line_requests_def)

lemma issuing_bringUp_registers:
  "issuing (range bringup_sequence) (bringUp_registers dev bitrate)"
proof -
  have "issuing
     (seq (seq (seq (seq (seq (seq (seq (seq (seq (seq (seq
        {[vendorRead_request 0x8484 0]} {[vendorWrite_request 0x0404 0]})
        {[vendorRead_request 0x8484 0]}) {[vendorRead_request 0x8383 0]})
        {[vendorRead_request 0x8484 0]}) {[vendorWrite_request 0x0404 1]})
        {[vendorRead_request 0x8484 0]}) {[vendorRead_request 0x8383 0]})
        {[vendorWrite_request 0 1]}) {[vendorWrite_request 1 0]})
        {[vendorWrite_request 2 0x44]}) (range line_requests))
     (bringUp_registers dev bitrate)"
    unfolding bringUp_registers_def
    by (intro issuing_then issuing_vendorRead issuing_vendorWrite issuing_setBaudrate)
  then show ?thesis
    by (simp add: seq_single seq_single_range bringup_sequence_split [abs_def])
qed

subsection \<open>fulfilled\<close>

lemma fulfilled_controlTransfer:
  "answers_all dev \<Longrightarrow> fulfilled (controlTransfer dev a b c d e)"
  unfolding fulfilled_def answers_all_def
proof
  fix s :: run_state
  assume all: "\<forall>h q. \<exists>x. respond dev h q = Inr x \<and> (q = getLine_request \<longrightarrow> 4 \<le> length x)"
  let ?req = "\<lparr>bmRequestType = a, bRequest = b, wValue = c, wIndex = d, dataOrLength = e\<rparr>"
  from all obtain x where "respond dev (issued s) ?req = Inr x" by blast
  then show "\<exists>y. fst (controlTransfer dev a b c d e s) = Inr y"
    by (simp add: controlTransfer_def Let_def)
qed

lemma fulfilled_resolve: "fulfilled (resolve a)"
  by (simp add: fulfilled_def resolve_def)

lemma fulfilled_then:
  assumes "fulfilled p" "\<And>a. fulfilled (f a)"
  shows "fulfilled (then_p p f)"
  unfolding fulfilled_def
proof
  fix s :: run_state
  from assms(1) obtain a where a: "fst (p s) = Inr a" unfolding fulfilled_def by blast
  then have "then_p p f s = f a (snd (p s))"
    by (cases "p s") (simp add: then_p_def)
  with assms(2) [of a] show "\<exists>y. fst (then_p p f s) = Inr y"
    by (simp add: fulfilled_def)
qed

lemma setBaudrate_parameters_ok:
  assumes "4 \<le> length data" "b \<in> set SupportedBaudrates"
  shows "\<exists>parameters. setBaudrate_parameters (Some b) data = Inr parameters"
  using assms(1) SupportedBaudrates_range [OF assms(2)]
  by (simp add: setBaudrate_parameters_def writeInt32LE_def)

lemma fulfilled_setBaudrate:
  assumes "baud \<le> 115200" "answers_all dev"
  shows "fulfilled (setBaudrate dev baud)"
proof -
  obtain b where b: "newBaud baud = Some b"
    using newBaud_first_minimum [of baud] by blast
  then have tab: "b \<in> set SupportedBaudrates" by (rule newBaud_in_table)
  from assms(1) b have rate: "setBaudrate_rate baud = Inr (Some b)"
    by (simp add: setBaudrate_rate_def)
  let ?cb = "\<lambda>data. case setBaudrate_parameters (Some b) data of
                 Inl e \<Rightarrow> throw e
               | Inr parameters \<Rightarrow> controlTransfer dev 0x21 0x20 0 0 (Data parameters)"
  have first: "fulfilled (then_p (controlTransfer dev 0xa1 0x21 0 0 (Length 7)) ?cb)"
    unfolding fulfilled_def
  proof
    fix s :: run_state
    from assms(2) obtain d where
      d: "respond dev (issued s) getLine_request = Inr d" "4 \<le> length d"
      unfolding answers_all_def by blast
    from setBaudrate_parameters_ok [OF d(2) tab] obtain parameters where
      p: "setBaudrate_parameters (Some b) d = Inr parameters" by blast
    let ?s' = "s\<lparr>issued := issued s @ [getLine_request]\<rparr>"
    have "then_p (controlTransfer dev 0xa1 0x21 0 0 (Length 7)) ?cb s =
            controlTransfer dev 0x21 0x20 0 0 (Data parameters) ?s'"
      using d(1) p by (simp add: then_p_def controlTransfer_def getLine_request_def)
    then show "\<exists>y. fst (then_p (controlTransfer dev 0xa1 0x21 0 0 (Length 7)) ?cb s) = Inr y"
      using fulfilled_controlTransfer [OF assms(2)] by (simp add: fulfilled_def)
  qed
  show ?thesis
    unfolding setBaudrate_def rate vendorWrite_def
    by (simp, intro fulfilled_then fulfilled_controlTransfer first assms(2))
qed

lemma fulfilled_bringUp_registers:
  assumes "bitrate \<le> 115200" "answers_all dev"
  shows "fulfilled (bringUp_registers dev bitrate)"
  unfolding bringUp_registers_def vendorRead_def vendorWrite_def
  by (intro fulfilled_then fulfilled_controlTransfer fulfilled_resolve
      fulfilled_setBaudrate assms)

subsection \<open>The run of the constructor's chain\<close>

lemma bringUp_run_fulfilled:
  assumes "bringUp_registers dev r initial_state = (Inr a, s1)"
  shows "bringUp_run dev r = s1\<lparr>inEp_polling := True, emitted := emitted s1 @ [ReadyEvent]\<rparr>"
  using assms
  by (simp add: bringUp_run_def bringUp_def catch_p_def then_p_def inEp_startPoll_def emit_def)

lemma bringUp_run_rejected:
  assumes "bringUp_registers dev r initial_state = (Inl e, s1)"
  shows "bringUp_run dev r = s1\<lparr>emitted := emitted s1 @ [ErrorEvent e]\<rparr>"
  using assms
  by (simp add: bringUp_run_def bringUp_def catch_p_def then_p_def inEp_startPoll_def emit_def)

lemma length_bringup_sequence: "length (bringup_sequence payload) = 16"
  by (simp add: bringup_sequence_def)

lemma bringUp_registers_initial:
  assumes "bringUp_registers dev r initial_state = (res, s1)"
  shows "emitted s1 = [] \<and> \<not> inEp_polling s1
         \<and> (\<exists>payload k. k \<le> 16 \<and> issued s1 = take k (bringup_sequence payload)
               \<and> (isl res \<or> k = 16))"
proof -
  have "issuing (range bringup_sequence) (bringUp_registers dev r)"
    by (rule issuing_bringUp_registers)
  then have "emitted s1 = emitted initial_state \<and> inEp_polling s1 = inEp_polling initial_state
     \<and> (\<exists>rs\<in>range bringup_sequence. \<exists>k\<le>length rs.
           issued s1 = issued initial_state @ take k rs \<and> (isl res \<or> k = length rs))"
    unfolding issuing_def using assms by (metis fst_conv snd_conv)
  then obtain payload k where "emitted s1 = []" "\<not> inEp_polling s1"
    "k \<le> length (bringup_sequence payload)" "issued s1 = take k (bringup_sequence payload)"
    "isl res \<or> k = length (bringup_sequence payload)"
    by (auto simp: initial_state_def)
  then show ?thesis
    unfolding length_bringup_sequence by blast
qed

subsection \<open>Every transfer but the last was answered\<close>

lemma bringUp_run_settled:
  assumes "bringUp_registers dev r initial_state = (res, s1)"
  shows "settled dev res (issued s1) \<and> issued (bringUp_run dev r) = issued s1"
proof -
  have "answered dev (issued initial_state)"
    by (simp add: initial_state_def answered_Nil)
  with halting_bringUp_registers [of dev r] assms have "settled dev res (issued s1)"
    unfolding halting_def by (metis fst_conv snd_conv)
  moreover have "issued (bringUp_run dev r) = issued s1"
    using assms by (cases res) (simp_all add: bringUp_run_rejected bringUp_run_fulfilled)
  ultimately show ?thesis by simp
qed

lemma answered_nth:
  "answered dev tr \<Longrightarrow> j < length tr \<Longrightarrow> \<exists>d. respond dev (take j tr) (tr ! j) = Inr d"
  by (simp add: answered_def)

lemma bringUp_run_answered_before_last:
  assumes "Suc j < length (issued (bringUp_run dev r))"
  shows "\<exists>d. respond dev (take j (issued (bringUp_run dev r))) (issued (bringUp_run dev r) ! j) = Inr d"
proof -
  obtain res s1 where reg: "bringUp_registers dev r initial_state = (res, s1)"
    by (cases "bringUp_registers dev r initial_state")
  from bringUp_run_settled [OF reg] have
    settled: "settled dev res (issued s1)" and same: "issued (bringUp_run dev r) = issued s1"
    by simp_all
  from assms have j: "Suc j < length (issued s1)" by (simp add: same)
  have "\<exists>d. respond dev (take j (issued s1)) (issued s1 ! j) = Inr d"
  proof (cases "answered dev (issued s1)")
    case True
    with j show ?thesis by (intro answered_nth) simp_all
  next
    case False
    with settled obtain e where "res = Inl e" "stopped dev e (issued s1)"
      by (cases res) (auto simp: settled_def)
    with False obtain h q where tr: "issued s1 = h @ [q]" "answered dev h"
      by (cases e) (auto simp: stopped_def)
    from j tr(1) have "j < length h" by simp
    with answered_nth [OF tr(2)] have "\<exists>d. respond dev (take j h) (h ! j) = Inr d" by blast
    with \<open>j < length h\<close> show ?thesis by (simp add: tr(1) nth_append)
  qed
  then show ?thesis by (simp add: same)
qed

lemma bringUp_run_ready_answered:
  assumes "ReadyEvent \<in> set (emitted (bringUp_run dev r))"
    and "j < length (issued (bringUp_run dev r))"
  shows "\<exists>d. respond dev (take j (issued (bringUp_run dev r))) (issued (bringUp_run dev r) ! j) = Inr d"
proof -
  obtain res s1 where reg: "bringUp_registers dev r initial_state = (res, s1)"
    by (cases "bringUp_registers dev r initial_state")
  from bringUp_run_settled [OF reg] have
    settled: "settled dev res (issued s1)" and same: "issued (bringUp_run dev r) = issued s1"
    by simp_all
  from bringUp_registers_initial [OF reg] have quiet: "emitted s1 = []" by simp
  have "\<exists>a. res = Inr a"
  proof (cases res)
    case (Inl e)
    with reg quiet have "emitted (bringUp_run dev r) = [ErrorEvent e]"
      by (simp add: bringUp_run_rejected)
    with assms(1) show ?thesis by simp
  qed simp
  with settled have "answered dev (issued s1)" by (auto simp: settled_def)
  with assms(2) show ?thesis unfolding same by (intro answered_nth) simp_all
qed

lemma bringUp_run_events:
  "emitted (bringUp_run dev r) = [ReadyEvent]
   \<or> (\<exists>e. emitted (bringUp_run dev r) = [ErrorEvent e])"
proof -
  obtain res s1 where reg: "bringUp_registers dev r initial_state = (res, s1)"
    by (cases "bringUp_registers dev r initial_state")
  from bringUp_registers_initial [OF reg] have quiet: "emitted s1 = []" by simp
  with reg show ?thesis
    by (cases res) (simp_all add: bringUp_run_rejected bringUp_run_fulfilled)
qed

subsection \<open>Rejections that are not transport errors\<close>

lemma transport_only_controlTransfer: "transport_only (controlTransfer dev a b c d e)"
  by (auto simp: transport_only_def controlTransfer_def Let_def split: sum.splits)

lemma transport_only_resolve: "transport_only (resolve a)"
  by (simp add: transport_only_def resolve_def)

lemma transport_only_then:
  assumes "transport_only p" "\<And>a. transport_only (f a)"
  shows "transport_only (then_p p f)"
  unfolding transport_only_def
proof (intro allI impI)
  fix s :: run_state and e
  assume rej: "fst (then_p p f s) = Inl e"
  obtain r s' where ps: "p s = (r, s')" by (cases "p s")
  show "\<exists>x. e = TransportError x"
  proof (cases r)
    case (Inl e')
    with ps rej have "fst (p s) = Inl e" by (simp add: then_p_def)
    with assms(1) show ?thesis unfolding transport_only_def by blast
  next
    case (Inr a)
    with ps rej have "fst (f a s') = Inl e" by (simp add: then_p_def)
    with assms(2) [of a] show ?thesis unfolding transport_only_def by blast
  qed
qed

text \<open>
  An error that is not a transport error passes through callbacks that can only fail in
  transport: it was raised before them.
\<close>

lemma then_p_local_error:
  assumes "\<And>a. transport_only (f a)"
    and "fst (then_p q f s) = Inl e" and "\<forall>x. e \<noteq> TransportError x"
  shows "q s = (Inl e, snd (then_p q f s))"
proof -
  obtain r s' where qs: "q s = (r, s')" by (cases "q s")
  show ?thesis
  proof (cases r)
    case (Inl e')
    with qs assms(2) show ?thesis by (simp add: then_p_def)
  next
    case (Inr a)
    with qs assms(2) have "fst (f a s') = Inl e" by (simp add: then_p_def)
    with assms(1) [of a] assms(3) show ?thesis unfolding transport_only_def by blast
  qed
qed

lemma setBaudrate_parameters_short:
  assumes "b \<in> set SupportedBaudrates" "setBaudrate_parameters (Some b) data = Inl e"
  shows "e = RangeError \<and> length data < 4"
  using assms(2) SupportedBaudrates_range [OF assms(1)]
  by (auto simp: setBaudrate_parameters_def writeInt32LE_def split: if_splits sum.splits)

lemma setBaudrate_local_error:
  assumes "baud \<le> 115200"
    and "fst (setBaudrate dev baud s) = Inl e" and "\<forall>x. e \<noteq> TransportError x"
  shows "e = RangeError
         \<and> issued (snd (setBaudrate dev baud s)) = issued s @ [getLine_request]
         \<and> (\<exists>d. respond dev (issued s) getLine_request = Inr d \<and> length d < 4)"
proof -
  obtain b where b: "newBaud baud = Some b"
    using newBaud_first_minimum [of baud] by blast
  then have tab: "b \<in> set SupportedBaudrates" by (rule newBaud_in_table)
  from assms(1) b have rate: "setBaudrate_rate baud = Inr (Some b)"
    by (simp add: setBaudrate_rate_def)
  let ?cb = "\<lambda>data. case setBaudrate_parameters (Some b) data of
                 Inl e \<Rightarrow> throw e
               | Inr parameters \<Rightarrow> controlTransfer dev 0x21 0x20 0 0 (Data parameters)"
  let ?line = "then_p (controlTransfer dev 0xa1 0x21 0 0 (Length 7)) ?cb"
  let ?w1 = "then_p ?line (\<lambda>_. vendorWrite dev 0x0 0x0)"
  let ?w2 = "then_p ?w1 (\<lambda>_. vendorWrite dev 8 0)"
  let ?w3 = "then_p ?w2 (\<lambda>_. vendorWrite dev 9 0)"
  have sb: "setBaudrate dev baud = ?w3"
    unfolding setBaudrate_def rate by simp
  have w: "transport_only (vendorWrite dev v i)" for v i
    unfolding vendorWrite_def by (rule transport_only_controlTransfer)
  from assms(2) have "fst (?w3 s) = Inl e" by (simp add: sb)
  from then_p_local_error [OF w this assms(3)] have 3: "?w2 s = (Inl e, snd (?w3 s))" .
  then have "fst (?w2 s) = Inl e" by simp
  from then_p_local_error [OF w this assms(3)] 3 have 2: "?w1 s = (Inl e, snd (?w3 s))" by simp
  then have "fst (?w1 s) = Inl e" by simp
  from then_p_local_error [OF w this assms(3)] 2 have 1: "?line s = (Inl e, snd (?w3 s))" by simp
  let ?s' = "s\<lparr>issued := issued s @ [getLine_request]\<rparr>"
  show ?thesis
  proof (cases "respond dev (issued s) getLine_request")
    case (Inl x)
    then have "?line s = (Inl (TransportError x), ?s')"
      by (simp add: then_p_def controlTransfer_def getLine_request_def)
    with 1 have "e = TransportError x" by simp
    with assms(3) show ?thesis by blast
  next
    case (Inr d)
    then have line: "?line s = ?cb d ?s'"
      by (simp add: then_p_def controlTransfer_def getLine_request_def)
    show ?thesis
    proof (cases "setBaudrate_parameters (Some b) d")
      case (Inl e')
      with line have "?line s = (Inl e', ?s')" by (simp add: throw_def)
      with 1 have "e' = e" "snd (?w3 s) = ?s'" by simp_all
      with setBaudrate_parameters_short [OF tab Inl] Inr show ?thesis by (simp add: sb)
    next
      case (Inr parameters)
      with line have "?line s = controlTransfer dev 0x21 0x20 0 0 (Data parameters) ?s'" by simp
      with 1 have "fst (controlTransfer dev 0x21 0x20 0 0 (Data parameters) ?s') = Inl e" by simp
      with transport_only_controlTransfer assms(3) show ?thesis
        unfolding transport_only_def by blast
    qed
  qed
qed

lemma transport_only_vendorRead: "transport_only (vendorRead dev v i)"
  unfolding vendorRead_def
  by (intro transport_only_then transport_only_controlTransfer transport_only_resolve)

lemma transport_only_vendorWrite: "transport_only (vendorWrite dev v i)"
  unfolding vendorWrite_def by (rule transport_only_controlTransfer)

lemma bringUp_registers_local_error:
  assumes "r \<le> 115200"
    and "bringUp_registers dev r s = (Inl e, s1)" and "\<forall>x. e \<noteq> TransportError x"
  shows "e = RangeError
         \<and> (\<exists>h d. issued s1 = h @ [getLine_request]
               \<and> respond dev h getLine_request = Inr d \<and> length d < 4)"
proof -
  define init where "init =
      then_p (then_p (then_p (then_p (then_p
      (then_p (then_p (then_p (then_p (then_p
        (vendorRead dev 0x8484 0)
        (\<lambda>_. vendorWrite dev 0x0404 0))
        (\<lambda>_. vendorRead dev 0x8484 0))
        (\<lambda>_. vendorRead dev 0x8383 0))
        (\<lambda>_. vendorRead dev 0x8484 0))
        (\<lambda>_. vendorWrite dev 0x0404 1))
        (\<lambda>_. vendorRead dev 0x8484 0))
        (\<lambda>_. vendorRead dev 0x8383 0))
        (\<lambda>_. vendorWrite dev 0 1))
        (\<lambda>_. vendorWrite dev 1 0))
        (\<lambda>_. vendorWrite dev 2 0x44)"
  have init: "transport_only init"
    unfolding init_def
    by (intro transport_only_then transport_only_vendorRead transport_only_vendorWrite)
  have reg: "bringUp_registers dev r = then_p init (\<lambda>_. setBaudrate dev r)"
    unfolding bringUp_registers_def init_def by (rule refl)
  obtain res s0 where run0: "init s = (res, s0)" by (cases "init s")
  show ?thesis
  proof (cases res)
    case (Inl e')
    with run0 assms(2) have "fst (init s) = Inl e" by (simp add: reg then_p_def)
    with init assms(3) show ?thesis unfolding transport_only_def by blast
  next
    case (Inr a)
    with run0 assms(2) have sb: "setBaudrate dev r s0 = (Inl e, s1)"
      by (simp add: reg then_p_def)
    then have "fst (setBaudrate dev r s0) = Inl e" by simp
    from setBaudrate_local_error [OF assms(1) this assms(3)] sb show ?thesis by auto
  qed
qed

lemma bringup_sequence_nth_getLine:
  assumes "n < 16" "bringup_sequence payload ! n = getLine_request"
  shows "n = 11"
proof -
  from assms(1) have "n \<in> {0, 1, 2, 3, 4, 5, 6, 7, 8, 9, 10, 11, 12, 13, 14, 15}"
    by (simp only: insert_iff empty_iff) arith
  with assms(2) show ?thesis
    by (auto simp: bringup_sequence_def vendorRead_request_def vendorWrite_request_def
        getLine_request_def setLine_request_def)
qed

lemma bringup_sequence_getLine:
  assumes "take k (bringup_sequence payload) = h @ [getLine_request]"
  shows "length h = 11"
proof -
  let ?seq = "bringup_sequence payload"
  from arg_cong [OF assms, of length] have len: "min 16 k = Suc (length h)"
    by (simp add: length_bringup_sequence)
  then have n: "length h < 16" "length h < k" by simp_all
  have "take k ?seq ! length h = getLine_request" by (simp add: assms)
  with n have "?seq ! length h = getLine_request" by simp
  with n(1) show ?thesis by (rule bringup_sequence_nth_getLine)
qed

section \<open>The bring-up sequence\<close>

lemmas run_simps =
  bringUp_run_def bringUp_def bringUp_registers_def initial_state_def then_p_def catch_p_def
  vendorRead_def vendorWrite_def controlTransfer_def resolve_def throw_def emit_def
  inEp_startPoll_def setBaudrate_def setBaudrate_rate_def newBaud_def SupportedBaudrates_def
  baud_distance_cmp_def first_element_def setBaudrate_parameters_def writeInt32LE_def
  int32_le_bytes_def set_index_def
  bringup_sequence_def vendorRead_request_def vendorWrite_request_def getLine_request_def
  setLine_request_def

lemma answers_all_hx_device: "answers_all (hx_device n)"
  by (simp add: answers_all_def hx_device_def)

lemma run_hx_9600:
  "issued (bringUp_run (hx_device 1) 9600) = bringup_sequence [0x80, 0x25, 0, 0, 0, 0, 8]"
  by (simp add: run_simps hx_device_def)

lemma run_hx_115200:
  "issued (bringUp_run (hx_device 1) 115200) = bringup_sequence [0x00, 0xc2, 0x01, 0, 0, 0, 8]"
  by (simp add: run_simps hx_device_def)

lemma run_failing_5:
  "issued (bringUp_run (failing_device 5 7) 9600) = take 6 (bringup_sequence [])"
  by (simp add: run_simps failing_device_def hx_device_def)

lemma run_short_template:
  "issued (bringUp_run short_template_device 9600) = take 12 (bringup_sequence [])"
  by (simp add: run_simps short_template_device_def hx_device_def)

text \<open>
  Claim C2: for every requested baud rate \<open>r \<le> 115200\<close>, the bring-up chain issues
  its register operations in the fixed order of steps 1--15, each one only after the
  previous one has completed, and only the payload of step 12 depends on \<open>r\<close>. Whatever
  the device does:
  \<^item> the transfers issued are the first \<open>k\<close> requests of the sequence, none skipped and
    none out of turn, the payload of the line-configuration write being the only
    parameter;
  \<^item> every transfer but the last one issued was answered with data: no request is
    issued before the previous one has completed, nor after one that failed;
  \<^item> when the last one was answered too, the run has issued all sixteen and emitted
    \<^verbatim>\<open>ready\<close>, or it stopped after the read of the line configuration (twelve
    transfers) because the device returned fewer than the four bytes that the rate
    is written into;
  \<^item> a run that emits \<^verbatim>\<open>ready\<close> has issued the whole sequence, every transfer
    answered;
  \<^item> on a device that answers every transfer the whole sequence is issued and
    \<^verbatim>\<open>ready\<close> is emitted.
\<close>

theorem bringUp_fixed_order:
  assumes "r \<le> 115200"
  shows "(\<exists>payload k. k \<le> 16 \<and> issued (bringUp_run dev r) = take k (bringup_sequence payload))
       \<and> (\<forall>j. Suc j < length (issued (bringUp_run dev r)) \<longrightarrow>
            (\<exists>d. respond dev (take j (issued (bringUp_run dev r)))
                    (issued (bringUp_run dev r) ! j) = Inr d))
       \<and> ((\<forall>j<length (issued (bringUp_run dev r)).
              \<exists>d. respond dev (take j (issued (bringUp_run dev r)))
                     (issued (bringUp_run dev r) ! j) = Inr d) \<longrightarrow>
            (length (issued (bringUp_run dev r)) = 16
              \<and> emitted (bringUp_run dev r) = [ReadyEvent])
            \<or> (length (issued (bringUp_run dev r)) = 12
              \<and> emitted (bringUp_run dev r) = [ErrorEvent RangeError]
              \<and> (\<exists>d. respond dev (take 11 (issued (bringUp_run dev r))) getLine_request = Inr d
                     \<and> length d < 4)))
       \<and> (ReadyEvent \<in> set (emitted (bringUp_run dev r)) \<longrightarrow>
            (\<exists>payload. issued (bringUp_run dev r) = bringup_sequence payload)
            \<and> (\<forall>j<length (issued (bringUp_run dev r)).
                  \<exists>d. respond dev (take j (issued (bringUp_run dev r)))
                         (issued (bringUp_run dev r) ! j) = Inr d))
       \<and> (answers_all dev \<longrightarrow>
            (\<exists>payload. issued (bringUp_run dev r) = bringup_sequence payload)
            \<and> emitted (bringUp_run dev r) = [ReadyEvent])"
proof -
  let ?run = "bringUp_run dev r"
  obtain res s1 where reg: "bringUp_registers dev r initial_state = (res, s1)"
    by (cases "bringUp_registers dev r initial_state")
  from bringUp_registers_initial [OF reg] obtain payload k where
    quiet: "emitted s1 = []" and
    k: "k \<le> 16" "issued s1 = take k (bringup_sequence payload)" "isl res \<or> k = 16"
    by blast
  from bringUp_run_settled [OF reg] have
    settled: "settled dev res (issued s1)" and same: "issued ?run = issued s1"
    by simp_all
  have full: "issued s1 = bringup_sequence payload" if "\<not> isl res"
    using that k by (simp add: length_bringup_sequence)
  have order: "\<exists>payload k. k \<le> 16 \<and> issued ?run = take k (bringup_sequence payload)"
    using k same by auto
  have before: "\<forall>j. Suc j < length (issued ?run) \<longrightarrow>
      (\<exists>d. respond dev (take j (issued ?run)) (issued ?run ! j) = Inr d)"
    by (intro allI impI) (rule bringUp_run_answered_before_last)
  have ready: "ReadyEvent \<in> set (emitted ?run) \<longrightarrow>
      (\<exists>payload. issued ?run = bringup_sequence payload)
      \<and> (\<forall>j<length (issued ?run).
            \<exists>d. respond dev (take j (issued ?run)) (issued ?run ! j) = Inr d)"
  proof (intro impI conjI allI)
    assume em: "ReadyEvent \<in> set (emitted ?run)"
    have "\<not> isl res"
    proof (cases res)
      case (Inl e)
      with reg quiet have "emitted ?run = [ErrorEvent e]" by (simp add: bringUp_run_rejected)
      with em show ?thesis by simp
    qed simp
    with full same show "\<exists>payload. issued ?run = bringup_sequence payload" by auto
    fix j assume "j < length (issued ?run)"
    with em show "\<exists>d. respond dev (take j (issued ?run)) (issued ?run ! j) = Inr d"
      by (rule bringUp_run_ready_answered)
  qed
  have complete: "(\<forall>j<length (issued ?run).
        \<exists>d. respond dev (take j (issued ?run)) (issued ?run ! j) = Inr d) \<longrightarrow>
      length (issued ?run) = 16 \<and> emitted ?run = [ReadyEvent]
      \<or> length (issued ?run) = 12 \<and> emitted ?run = [ErrorEvent RangeError]
        \<and> (\<exists>d. respond dev (take 11 (issued ?run)) getLine_request = Inr d \<and> length d < 4)"
  proof
    assume "\<forall>j<length (issued ?run).
        \<exists>d. respond dev (take j (issued ?run)) (issued ?run ! j) = Inr d"
    then have ans: "answered dev (issued s1)" by (simp add: answered_def same)
    show "length (issued ?run) = 16 \<and> emitted ?run = [ReadyEvent]
      \<or> length (issued ?run) = 12 \<and> emitted ?run = [ErrorEvent RangeError]
        \<and> (\<exists>d. respond dev (take 11 (issued ?run)) getLine_request = Inr d \<and> length d < 4)"
    proof (cases res)
      case (Inr a)
      with reg quiet have "emitted ?run = [ReadyEvent]" by (simp add: bringUp_run_fulfilled)
      moreover from Inr full have "length (issued s1) = 16"
        by (simp add: length_bringup_sequence)
      ultimately show ?thesis by (simp add: same)
    next
      case (Inl e)
      with reg quiet have em: "emitted ?run = [ErrorEvent e]"
        by (simp add: bringUp_run_rejected)
      have local: "\<forall>x. e \<noteq> TransportError x"
      proof (intro allI notI)
        fix x assume "e = TransportError x"
        with settled Inl obtain h q where "issued s1 = h @ [q]" "respond dev h q = Inl x"
          by (auto simp: settled_def stopped_def)
        moreover from this(1) ans have "\<exists>d. respond dev h q = Inr d"
          by (simp add: answered_snoc)
        ultimately show False by simp
      qed
      from reg Inl have "bringUp_registers dev r initial_state = (Inl e, s1)" by simp
      from bringUp_registers_local_error [OF assms this local] obtain h d where
        e: "e = RangeError" and h: "issued s1 = h @ [getLine_request]" and
        d: "respond dev h getLine_request = Inr d" "length d < 4"
        by blast
      from h k(2) have "take k (bringup_sequence payload) = h @ [getLine_request]" by simp
      then have "length h = 11" by (rule bringup_sequence_getLine)
      with h have "length (issued s1) = 12" "take 11 (issued s1) = h" by simp_all
      with e em d show ?thesis by (auto simp: same)
    qed
  qed
  have all: "answers_all dev \<longrightarrow>
      (\<exists>payload. issued ?run = bringup_sequence payload) \<and> emitted ?run = [ReadyEvent]"
  proof
    assume "answers_all dev"
    with assms have "fulfilled (bringUp_registers dev r)"
      by (rule fulfilled_bringUp_registers)
    with reg obtain a where a: "res = Inr a"
      by (auto simp: fulfilled_def dest: spec [of _ initial_state])
    with reg quiet have "emitted ?run = [ReadyEvent]" by (simp add: bringUp_run_fulfilled)
    moreover from a full same have "issued ?run = bringup_sequence payload" by simp
    ultimately show "(\<exists>payload. issued ?run = bringup_sequence payload)
        \<and> emitted ?run = [ReadyEvent]" by blast
  qed
  from order before complete ready all show ?thesis by blast
qed

text \<open>
  On a device that answers everything, the sixteen transfers at 9600 and at 115200
  differ in the payload of the line-configuration write only; on a device whose first
  transfer fails nothing follows it; a device with a short line configuration stops the
  run at the twelfth transfer.
\<close>

theorem bringUp_fixed_order_witness:
  "(9600::int) \<le> 115200
   \<and> answers_all (hx_device 1)
   \<and> issued (bringUp_run (hx_device 1) 9600) = bringup_sequence [0x80, 0x25, 0, 0, 0, 0, 8]
   \<and> emitted (bringUp_run (hx_device 1) 9600) = [ReadyEvent]
   \<and> issued (bringUp_run (hx_device 1) 115200) = bringup_sequence [0x00, 0xc2, 0x01, 0, 0, 0, 8]
   \<and> length (issued (bringUp_run (failing_device 0 7) 9600)) \<le> 1
   \<and> issued (bringUp_run short_template_device 9600) = take 12 (bringup_sequence [])"
proof -
  have le: "(9600::int) \<le> 115200" by simp
  have all: "answers_all (hx_device 1)" by (rule answers_all_hx_device)
  have "answers_all (hx_device 1)
          \<longrightarrow> (\<exists>payload. issued (bringUp_run (hx_device 1) 9600) = bringup_sequence payload)
            \<and> emitted (bringUp_run (hx_device 1) 9600) = [ReadyEvent]"
    using bringUp_fixed_order [OF le, of "hx_device 1"] by blast
  with all have ready: "emitted (bringUp_run (hx_device 1) 9600) = [ReadyEvent]" by blast
  let ?bad = "bringUp_run (failing_device 0 7) 9600"
  have "Suc 0 < length (issued ?bad) \<longrightarrow>
          (\<exists>d. respond (failing_device 0 7) (take 0 (issued ?bad)) (issued ?bad ! 0) = Inr d)"
    using bringUp_fixed_order [OF le, of "failing_device 0 7"] by blast
  moreover have "respond (failing_device 0 7) (take 0 (issued ?bad)) (issued ?bad ! 0) = Inl 7"
    by (simp add: failing_device_def)
  ultimately have one: "length (issued ?bad) \<le> 1" by auto
  from le all ready one run_hx_9600 run_hx_115200 run_short_template show ?thesis by blast
qed

text \<open>
  Claim C3: if a bring-up step fails with a transport error, no later step is executed,
  exactly one error notification is produced, for that failure, and the ready
  notification is not produced in that run. The failed transfer is the last one issued,
  the events of the run are the single \<^verbatim>\<open>error\<close> carrying the transport error, and
  polling of the bulk-in endpoint has not started.
\<close>

theorem bringUp_failure_halts:
  assumes "k < length (issued (bringUp_run dev r))"
    and "respond dev (take k (issued (bringUp_run dev r))) (issued (bringUp_run dev r) ! k) = Inl x"
  shows "length (issued (bringUp_run dev r)) = Suc k
       \<and> emitted (bringUp_run dev r) = [ErrorEvent (TransportError x)]
       \<and> ReadyEvent \<notin> set (emitted (bringUp_run dev r))
       \<and> \<not> inEp_polling (bringUp_run dev r)"
proof -
  obtain res s1 where reg: "bringUp_registers dev r initial_state = (res, s1)"
    by (cases "bringUp_registers dev r initial_state")
  from bringUp_registers_initial [OF reg] have
    quiet: "emitted s1 = []" "\<not> inEp_polling s1" by simp_all
  have "answered dev (issued initial_state)"
    by (simp add: initial_state_def answered_Nil)
  with halting_bringUp_registers [of dev r] reg have settled: "settled dev res (issued s1)"
    unfolding halting_def by (metis fst_conv snd_conv)
  have same: "issued (bringUp_run dev r) = issued s1"
    using reg by (cases res) (simp_all add: bringUp_run_rejected bringUp_run_fulfilled)
  have unanswered: "\<not> answered dev (issued s1)"
    using assms unfolding same answered_def by auto
  from settled unanswered obtain e where res: "res = Inl e" and stop: "stopped dev e (issued s1)"
    by (cases res) (auto simp: settled_def)
  from stop unanswered obtain y h q where
    e: "e = TransportError y" and
    tr: "issued s1 = h @ [q]" "answered dev h" "respond dev h q = Inl y"
    by (cases e) (auto simp: stopped_def)
  from assms have "k < length (h @ [q])"
    and "respond dev (take k (h @ [q])) ((h @ [q]) ! k) = Inl x"
    unfolding same tr(1) by simp_all
  with answered_failure_last [OF tr(2,3)] have last: "k = length h" "x = y" by blast+
  from reg res have run: "bringUp_run dev r = s1\<lparr>emitted := emitted s1 @ [ErrorEvent e]\<rparr>"
    by (simp add: bringUp_run_rejected)
  show ?thesis
    using last e tr(1) quiet by (simp add: run)
qed

text \<open>A device whose sixth transfer fails with error 7.\<close>

theorem bringUp_failure_halts_witness:
  "5 < length (issued (bringUp_run (failing_device 5 7) 9600))
   \<and> respond (failing_device 5 7) (take 5 (issued (bringUp_run (failing_device 5 7) 9600)))
        (issued (bringUp_run (failing_device 5 7) 9600) ! 5) = Inl 7
   \<and> issued (bringUp_run (failing_device 5 7) 9600) = take 6 (bringup_sequence [])
   \<and> emitted (bringUp_run (failing_device 5 7) 9600) = [ErrorEvent (TransportError 7)]
   \<and> \<not> inEp_polling (bringUp_run (failing_device 5 7) 9600)"
proof -
  let ?run = "bringUp_run (failing_device 5 7) 9600"
  have len: "5 < length (issued ?run)"
    unfolding run_failing_5 by (simp add: length_bringup_sequence)
  have fails: "respond (failing_device 5 7) (take 5 (issued ?run)) (issued ?run ! 5) = Inl 7"
    unfolding run_failing_5 by (simp add: length_bringup_sequence failing_device_def)
  from bringUp_failure_halts [OF len fails]
  have "emitted ?run = [ErrorEvent (TransportError 7)]" and "\<not> inEp_polling ?run"
    by blast+
  with len fails run_failing_5 show ?thesis by blast
qed

section \<open>The line configuration\<close>

lemma issued_controlTransfer:
  "issued (snd (controlTransfer dev a b c d e s)) =
     issued s @ [\<lparr>bmRequestType = a, bRequest = b, wValue = c, wIndex = d, dataOrLength = e\<rparr>]"
  by (simp add: controlTransfer_def Let_def split: sum.splits)

lemma then_p_extends:
  fixes p :: "'a promise" and f :: "'a \<Rightarrow> 'b promise"
  assumes "\<And>a. issuing R (f a)"
  shows "\<exists>more. issued (snd (then_p p f s)) = issued (snd (p s)) @ more"
proof (cases "p s")
  case (Pair r s')
  show ?thesis
  proof (cases r)
    case (Inl e)
    with Pair show ?thesis by (simp add: then_p_def)
  next
    case (Inr a)
    with Pair have "then_p p f s = f a s'" by (simp add: then_p_def)
    moreover from assms [of a] have "\<exists>more. issued (snd (f a s')) = issued s' @ more"
      unfolding issuing_def by blast
    ultimately show ?thesis using Pair by simp
  qed
qed

text \<open>
  Claim C6: for every selected baud rate, the 7-byte line-configuration block written
  back to the device has bytes 0--3 equal to the selected rate, least significant byte
  first, byte 4 equal to 0 (one stop bit), byte 5 equal to 0 (no parity) and byte 6
  equal to 8 (eight data bits). The block is the seven bytes read from the device with
  the first four overwritten by the rate and the last three by 0, 0 and 8; it is the
  payload of the second transfer that \<^verbatim>\<open>setBaudrate\<close> issues.
\<close>

theorem setBaudrate_line_configuration:
  assumes "baud \<le> 115200"
    and "respond dev (issued s) getLine_request = Inr data"
    and "length data = 7"
  shows "\<exists>rate p. setBaudrate_rate baud = Inr (Some rate)
           \<and> take 2 (drop (length (issued s)) (issued (snd (setBaudrate dev baud s)))) =
                [getLine_request, setLine_request p]
           \<and> length p = 7
           \<and> int (le_value (take 4 p)) = rate
           \<and> p ! 4 = 0 \<and> p ! 5 = 0 \<and> p ! 6 = 8"
proof -
  obtain b where b: "newBaud baud = Some b"
    using newBaud_first_minimum [of baud] by blast
  then have "b \<in> set SupportedBaudrates" by (rule newBaud_in_table)
  then have bounds: "75 \<le> b" "b \<le> 6000000" by (auto dest: SupportedBaudrates_range)
  from assms(1) b have rate: "setBaudrate_rate baud = Inr (Some b)"
    by (simp add: setBaudrate_rate_def)
  define p where "p = int32_le_bytes b @ [0, 0, 8]"
  have params: "setBaudrate_parameters (Some b) data = Inr p"
    unfolding p_def using assms(3) bounds by (intro setBaudrate_parameters_7) simp_all
  have len4: "length (int32_le_bytes b) = 4" by (simp add: int32_le_bytes_def Let_def)
  have "int (le_value (int32_le_bytes b)) = b"
    using bounds by (intro le_value_int32_le_bytes) simp_all
  then have decoded: "int (le_value (take 4 p)) = b" by (simp add: p_def len4)
  have bytes: "length p = 7" "p ! 4 = 0" "p ! 5 = 0" "p ! 6 = 8"
    by (simp_all add: p_def len4 nth_append)
  let ?cb = "\<lambda>data. case setBaudrate_parameters (Some b) data of
                 Inl e \<Rightarrow> throw e
               | Inr parameters \<Rightarrow> controlTransfer dev 0x21 0x20 0 0 (Data parameters)"
  let ?line = "then_p (controlTransfer dev 0xa1 0x21 0 0 (Length 7)) ?cb"
  have "?line s = controlTransfer dev 0x21 0x20 0 0 (Data p)
                    (s\<lparr>issued := issued s @ [getLine_request]\<rparr>)"
    using assms(2) params by (simp add: then_p_def controlTransfer_def getLine_request_def)
  then have line: "issued (snd (?line s)) = issued s @ [getLine_request, setLine_request p]"
    by (simp add: issued_controlTransfer setLine_request_def)
  have w: "issuing {[vendorWrite_request v i]} (vendorWrite dev v i)" for v i
    by (rule issuing_vendorWrite)
  obtain m1 where m1: "issued (snd (then_p ?line (\<lambda>_. vendorWrite dev 0x0 0x0) s)) =
      issued (snd (?line s)) @ m1"
    using then_p_extends [of _ "\<lambda>_. vendorWrite dev 0x0 0x0", OF w] by blast
  obtain m2 where m2: "issued (snd (then_p (then_p ?line (\<lambda>_. vendorWrite dev 0x0 0x0))
        (\<lambda>_. vendorWrite dev 8 0) s)) =
      issued (snd (then_p ?line (\<lambda>_. vendorWrite dev 0x0 0x0) s)) @ m2"
    using then_p_extends [of _ "\<lambda>_. vendorWrite dev 8 0", OF w] by blast
  obtain m3 where m3: "issued (snd (then_p (then_p (then_p ?line (\<lambda>_. vendorWrite dev 0x0 0x0))
        (\<lambda>_. vendorWrite dev 8 0)) (\<lambda>_. vendorWrite dev 9 0) s)) =
      issued (snd (then_p (then_p ?line (\<lambda>_. vendorWrite dev 0x0 0x0))
        (\<lambda>_. vendorWrite dev 8 0) s)) @ m3"
    using then_p_extends [of _ "\<lambda>_. vendorWrite dev 9 0", OF w] by blast
  have "issued (snd (setBaudrate dev baud s)) =
          issued s @ [getLine_request, setLine_request p] @ m1 @ m2 @ m3"
    unfolding setBaudrate_def rate by (simp add: m3 m2 m1 line)
  then have "take 2 (drop (length (issued s)) (issued (snd (setBaudrate dev baud s)))) =
               [getLine_request, setLine_request p]"
    by simp
  with rate decoded bytes show ?thesis by blast
qed

lemma setBaudrate_hx_38400:
  "issued (snd (setBaudrate (hx_device 1) 38400 initial_state)) =
     [getLine_request, setLine_request [0x00, 0x96, 0, 0, 0, 0, 8],
      vendorWrite_request 0 0, vendorWrite_request 8 0, vendorWrite_request 9 0]"
  by (simp add: run_simps hx_device_def)

text \<open>At 38400 the block is 00 96 00 00 00 00 08, whatever the template held.\<close>

theorem setBaudrate_line_configuration_witness:
  "(38400::int) \<le> 115200
   \<and> respond (hx_device 1) (issued initial_state) getLine_request = Inr [0x00, 0xc2, 0x01, 0x00, 2, 1, 7]
   \<and> setBaudrate_rate 38400 = Inr (Some 38400)
   \<and> take 2 (issued (snd (setBaudrate (hx_device 1) 38400 initial_state))) =
        [getLine_request, setLine_request [0x00, 0x96, 0, 0, 0, 0, 8]]
   \<and> le_value (take 4 [0x00, 0x96, 0, 0, 0, 0, 8]) = 38400"
proof -
  have le: "(38400::int) \<le> 115200" by simp
  have answer: "respond (hx_device 1) (issued initial_state) getLine_request =
                  Inr [0x00, 0xc2, 0x01, 0x00, 2, 1, 7]"
    by (simp add: hx_device_def)
  have seven: "length [0x00, 0xc2, 0x01, 0x00, 2, 1, 7 :: byte] = 7" by simp
  have sent: "take 2 (issued (snd (setBaudrate (hx_device 1) 38400 initial_state))) =
                [getLine_request, setLine_request [0x00, 0x96, 0, 0, 0, 0, 8]]"
    unfolding setBaudrate_hx_38400 by simp
  from setBaudrate_line_configuration [OF le answer seven] obtain rate p where
    rate: "setBaudrate_rate 38400 = Inr (Some rate)" and
    p: "take 2 (drop (length (issued initial_state))
          (issued (snd (setBaudrate (hx_device 1) 38400 initial_state)))) =
        [getLine_request, setLine_request p]" and
    v: "int (le_value (take 4 p)) = rate"
    by blast
  have "issued initial_state = []" by (simp add: initial_state_def)
  with p sent have "p = [0x00, 0x96, 0, 0, 0, 0, 8]"
    by (simp add: setLine_request_def)
  with v have rate_eq: "rate = 38400" by simp
  from rate rate_eq have "setBaudrate_rate 38400 = Inr (Some 38400)" by simp
  moreover have "le_value (take 4 [0x00, 0x96, 0, 0, 0, 0, 8]) = 38400" by simp
  ultimately show ?thesis using le answer sent by blast
qed

end
